theory Spec2Isabelle
  imports Complex_Main "HOL-Library.Sublist" "HOL-Library.Product_Lexorder"
begin

section \<open>Bounded cache (services/bounded-cache.ts)\<close>

text \<open>
  A JavaScript \<open>Map\<close> keeps its keys in insertion order: writing an existing key replaces
  the value where the key stands, writing a new key appends it, deleting a key removes it.
  The map is therefore a list of pairs with distinct keys, oldest first.
  \<open>Date.now()\<close>, the TTL provider and \<open>getActiveClusterId()\<close> are read from the
  environment at each call; they are arguments here.
\<close>

record 'a CacheEntry =
  timestamp :: int
  data :: 'a

type_synonym 'a js_map = "(string \<times> 'a) list"

definition map_has :: "'a js_map \<Rightarrow> string \<Rightarrow> bool" where
  "map_has m k = (k \<in> set (map fst m))"

definition map_get :: "'a js_map \<Rightarrow> string \<Rightarrow> 'a option" where
  "map_get m k = map_of m k"

definition map_delete :: "'a js_map \<Rightarrow> string \<Rightarrow> 'a js_map" where
  "map_delete m k = filter (\<lambda>kv. fst kv \<noteq> k) m"

definition map_set :: "'a js_map \<Rightarrow> string \<Rightarrow> 'a \<Rightarrow> 'a js_map" where
  "map_set m k v =
     (if map_has m k then map (\<lambda>kv. if fst kv = k then (k, v) else kv) m
      else m @ [(k, v)])"

definition map_size :: "'a js_map \<Rightarrow> int" where
  "map_size m = int (length m)"

record 'a BoundedCache =
  cmap :: "'a CacheEntry js_map"
  maxSize :: int

definition new_cache :: "int \<Rightarrow> 'a BoundedCache" where
  "new_cache n = \<lparr>cmap = [], maxSize = n\<rparr>"

definition scopedKey :: "string \<Rightarrow> string \<Rightarrow> string" where
  "scopedKey cid key = cid @ '':'' @ key"

text \<open>The representation invariant of the map: no key occurs twice.\<close>

definition cache_ok :: "'a BoundedCache \<Rightarrow> bool" where
  "cache_ok c = distinct (map fst (cmap c))"

text \<open>
  \<open>get\<close>: a miss is \<open>None\<close>; an entry older than the TTL is deleted and is a miss.
\<close>

definition cache_get ::
  "'a BoundedCache \<Rightarrow> string \<Rightarrow> int \<Rightarrow> int \<Rightarrow> string \<Rightarrow> ('a \<times> int) option \<times> 'a BoundedCache" where
  "cache_get c cid now ttl key =
     (let sk = scopedKey cid key in
      case map_get (cmap c) sk of
        None \<Rightarrow> (None, c)
      | Some entry \<Rightarrow>
          if now - timestamp entry > ttl then (None, c\<lparr>cmap := map_delete (cmap c) sk\<rparr>)
          else (Some (data entry, timestamp entry), c))"

text \<open>
  The eviction loop of \<open>set\<close>: while the map holds at least \<open>maxSize\<close> entries, delete its
  first key; an empty map ends the loop (the \<open>break\<close> branch).
\<close>

function evict :: "int \<Rightarrow> 'a js_map \<Rightarrow> 'a js_map" where
  "evict n m =
     (if map_size m \<ge> n then
        (case m of [] \<Rightarrow> m | kv # rest \<Rightarrow> evict n (map_delete m (fst kv)))
      else m)"
  by pat_completeness auto
termination
proof (relation "measure (\<lambda>(n, m). length m)")
  show "wf (measure (\<lambda>(n, m). length m))" by simp
next
  fix n :: int and m :: "'a js_map" and kv rest
  assume "m = kv # rest"
  then have "length (map_delete m (fst kv)) \<le> length rest"
    by (simp add: map_delete_def)
  with \<open>m = kv # rest\<close> show "((n, map_delete m (fst kv)), (n, m)) \<in> measure (\<lambda>(n, m). length m)"
    by simp
qed

declare evict.simps [simp del]

definition cache_set ::
  "'a BoundedCache \<Rightarrow> string \<Rightarrow> int \<Rightarrow> string \<Rightarrow> 'a \<Rightarrow> 'a BoundedCache" where
  "cache_set c cid now key d =
     (let sk = scopedKey cid key;
          m = evict (maxSize c) (cmap c)
      in c\<lparr>cmap := map_set m sk \<lparr>timestamp = now, data = d\<rparr>\<rparr>)"

definition cache_delete :: "'a BoundedCache \<Rightarrow> string \<Rightarrow> string \<Rightarrow> 'a BoundedCache" where
  "cache_delete c cid key = c\<lparr>cmap := map_delete (cmap c) (scopedKey cid key)\<rparr>"

definition cache_clear :: "'a BoundedCache \<Rightarrow> 'a BoundedCache" where
  "cache_clear c = c\<lparr>cmap := []\<rparr>"

definition cache_size :: "'a BoundedCache \<Rightarrow> int" where
  "cache_size c = map_size (cmap c)"

text \<open>A run of \<open>set\<close> calls, each with its own clock reading: (key, data, now).\<close>

fun set_many :: "'a BoundedCache \<Rightarrow> string \<Rightarrow> (string \<times> 'a \<times> int) list \<Rightarrow> 'a BoundedCache" where
  "set_many c cid [] = c"
| "set_many c cid ((k, d, now) # rest) = set_many (cache_set c cid now k d) cid rest"

section \<open>Persisted configuration (services/config.ts)\<close>

text \<open>
  A value read from the parsed configuration file is \<open>unknown\<close> to the code, which only
  asks whether it is a number and whether the number is finite. A finite double is a
  rational; \<open>Math.round\<close>, \<open>Math.min\<close> and \<open>Math.max\<close> are exact on doubles whose
  results stay in the ranges used here.
\<close>

datatype js_number = Finite rat | NaN | PosInfinity | NegInfinity

datatype js_value = JUndefined | JNull | JBool bool | JNumber js_number | JString string | JObject

type_synonym js_record = "string \<rightharpoonup> js_value"

text \<open>Reading a property: a missing key reads \<open>undefined\<close>.\<close>

definition get_prop :: "js_record \<Rightarrow> string \<Rightarrow> js_value" where
  "get_prop obj k = (case obj k of None \<Rightarrow> JUndefined | Some v \<Rightarrow> v)"

text \<open>\<open>Math.round\<close>: the nearest integer, a tie going up.\<close>

definition Math_round :: "rat \<Rightarrow> int" where
  "Math_round x = \<lfloor>x + 1 / 2\<rfloor>"

record FreeLensAIConfig =
  logTailLines :: int
  analysisMaxTokens :: int
  apiTimeoutMs :: int
  resourceCacheTtlMs :: int
  logCacheTtlMs :: int
  maxRelationshipChildren :: int

definition DEFAULTS :: FreeLensAIConfig where
  "DEFAULTS = \<lparr>logTailLines = 500, analysisMaxTokens = 4096, apiTimeoutMs = 45000,
     resourceCacheTtlMs = 5 * 60 * 1000, logCacheTtlMs = 3 * 60 * 1000,
     maxRelationshipChildren = 50\<rparr>"

text \<open>The properties of the \<open>DEFAULTS\<close> object, as the spread \<open>{...DEFAULTS, ...raw}\<close> reads them.\<close>

definition num :: "int \<Rightarrow> js_value" where
  "num n = JNumber (Finite (of_int n))"

definition DEFAULTS_props :: js_record where
  "DEFAULTS_props =
     [''logTailLines'' \<mapsto> num (logTailLines DEFAULTS),
      ''analysisMaxTokens'' \<mapsto> num (analysisMaxTokens DEFAULTS),
      ''apiTimeoutMs'' \<mapsto> num (apiTimeoutMs DEFAULTS),
      ''resourceCacheTtlMs'' \<mapsto> num (resourceCacheTtlMs DEFAULTS),
      ''logCacheTtlMs'' \<mapsto> num (logCacheTtlMs DEFAULTS),
      ''maxRelationshipChildren'' \<mapsto> num (maxRelationshipChildren DEFAULTS)]"

text \<open>Clamp a value to [min, max], falling back to the default if it is not a finite number.\<close>

definition clampInt :: "js_value \<Rightarrow> int \<Rightarrow> int \<Rightarrow> int \<Rightarrow> int" where
  "clampInt v lo hi fallback =
     (case v of
        JNumber (Finite x) \<Rightarrow> max lo (min hi (Math_round x))
      | _ \<Rightarrow> fallback)"

definition validateConfig :: "js_record \<Rightarrow> FreeLensAIConfig" where
  "validateConfig raw =
     (let merged = DEFAULTS_props ++ raw in
      \<lparr>logTailLines = clampInt (get_prop merged ''logTailLines'') 10 10000 (logTailLines DEFAULTS),
       analysisMaxTokens =
         clampInt (get_prop merged ''analysisMaxTokens'') 256 16384 (analysisMaxTokens DEFAULTS),
       apiTimeoutMs = clampInt (get_prop merged ''apiTimeoutMs'') 5000 120000 (apiTimeoutMs DEFAULTS),
       resourceCacheTtlMs =
         clampInt (get_prop merged ''resourceCacheTtlMs'') 0 (30 * 60000) (resourceCacheTtlMs DEFAULTS),
       logCacheTtlMs =
         clampInt (get_prop merged ''logCacheTtlMs'') 0 (30 * 60000) (logCacheTtlMs DEFAULTS),
       maxRelationshipChildren =
         clampInt (get_prop merged ''maxRelationshipChildren'') 10 500
           (maxRelationshipChildren DEFAULTS)\<rparr>)"

text \<open>
  \<open>getConfig\<close>: the module keeps the configuration once loaded. The file is \<open>None\<close> when
  reading or parsing it throws; a parsed value that is not an object spreads to no
  property of interest and is the empty record here.
\<close>

definition getConfig ::
  "FreeLensAIConfig option \<Rightarrow> js_record option \<Rightarrow> FreeLensAIConfig \<times> FreeLensAIConfig option" where
  "getConfig cached file =
     (case cached of
        Some c \<Rightarrow> (c, cached)
      | None \<Rightarrow>
          (let c = (case file of Some raw \<Rightarrow> validateConfig raw | None \<Rightarrow> DEFAULTS)
           in (c, Some c)))"

definition reloadConfig :: "FreeLensAIConfig option \<Rightarrow> FreeLensAIConfig option" where
  "reloadConfig cached = None"

text \<open>
  The documented tunables: property name, field, minimum, maximum and fallback, as the
  configuration interface lists them.
\<close>

definition tunables :: "(string \<times> (FreeLensAIConfig \<Rightarrow> int) \<times> int \<times> int \<times> int) list" where
  "tunables =
     [(''logTailLines'', logTailLines, 10, 10000, 500),
      (''analysisMaxTokens'', analysisMaxTokens, 256, 16384, 4096),
      (''apiTimeoutMs'', apiTimeoutMs, 5000, 120000, 45000),
      (''resourceCacheTtlMs'', resourceCacheTtlMs, 0, 1800000, 300000),
      (''logCacheTtlMs'', logCacheTtlMs, 0, 1800000, 180000),
      (''maxRelationshipChildren'', maxRelationshipChildren, 10, 500, 50)]"

section \<open>Retry with backoff (services/retry.ts)\<close>

text \<open>
  A thrown error is an object of which the code reads \<open>name\<close>, \<open>status\<close>, \<open>statusCode\<close>
  and \<open>code\<close>; an absent property is \<open>None\<close>, and so is a \<open>code\<close> that is not a string.
\<close>

record js_error =
  err_name :: string
  err_message :: string
  err_status :: "int option"
  err_statusCode :: "int option"
  err_code :: "string option"

definition AbortError :: js_error where
  "AbortError = \<lparr>err_name = ''AbortError'', err_message = ''Aborted'', err_status = None,
     err_statusCode = None, err_code = None\<rparr>"

definition RetryFailed :: js_error where
  "RetryFailed = \<lparr>err_name = ''Error'', err_message = ''Retry failed'', err_status = None,
     err_statusCode = None, err_code = None\<rparr>"

definition RETRYABLE_STATUS_CODES :: "int set" where
  "RETRYABLE_STATUS_CODES = {429, 503, 529}"

definition NON_RETRYABLE_STATUS_CODES :: "int set" where
  "NON_RETRYABLE_STATUS_CODES = {400, 403}"

definition BACKOFF_DELAYS :: "int list" where
  "BACKOFF_DELAYS = [2000, 6000]"

text \<open>\<open>err.status || err.statusCode\<close>: an absent or zero status gives way to the status code.\<close>

definition truthy_status :: "int option \<Rightarrow> bool" where
  "truthy_status s = (case s of None \<Rightarrow> False | Some n \<Rightarrow> n \<noteq> 0)"

definition status_of :: "js_error \<Rightarrow> int option" where
  "status_of err = (if truthy_status (err_status err) then err_status err else err_statusCode err)"

definition isRetryable :: "js_error \<Rightarrow> bool" where
  "isRetryable err =
     (let status = status_of err in
        (truthy_status status \<and> the status \<in> RETRYABLE_STATUS_CODES)
        \<or> \<not> truthy_status status
        \<or> err_code err = Some ''ECONNRESET''
        \<or> err_code err = Some ''ETIMEDOUT'')"

text \<open>\<open>BACKOFF_DELAYS[attempt] || BACKOFF_DELAYS[BACKOFF_DELAYS.length - 1]\<close>\<close>

definition backoff_delay :: "nat \<Rightarrow> int" where
  "backoff_delay attempt =
     (if attempt < length BACKOFF_DELAYS \<and> BACKOFF_DELAYS ! attempt \<noteq> 0
      then BACKOFF_DELAYS ! attempt
      else BACKOFF_DELAYS ! (length BACKOFF_DELAYS - 1))"

text \<open>
  The abort signal as the loop observes it: whether it is already aborted when attempt
  \<open>k\<close> starts, and whether its abort event arrives during the wait that follows attempt
  \<open>k\<close>. An absent signal is never aborted.
\<close>

record abort_signal =
  aborted_at :: "nat \<Rightarrow> bool"
  abort_in_wait :: "nat \<Rightarrow> bool"

definition signal_aborted :: "abort_signal option \<Rightarrow> nat \<Rightarrow> bool" where
  "signal_aborted sig k = (case sig of None \<Rightarrow> False | Some s \<Rightarrow> aborted_at s k)"

definition wait_aborted :: "abort_signal option \<Rightarrow> nat \<Rightarrow> bool" where
  "wait_aborted sig k = (case sig of None \<Rightarrow> False | Some s \<Rightarrow> abort_in_wait s k)"

text \<open>
  What a run did besides returning: how often the operation was invoked, the delays it
  waited, how often the refresh callback was invoked.
\<close>

record retry_trace =
  calls :: nat
  waits :: "int list"
  refreshes :: nat

definition no_trace :: retry_trace where
  "no_trace = \<lparr>calls = 0, waits = [], refreshes = 0\<rparr>"

text \<open>
  The operation is given by the outcome of each of its invocations in turn, the refresh
  callback likewise; either may throw (\<open>Inl\<close>).
\<close>

function retry_loop ::
  "(nat \<Rightarrow> js_error + 'a) \<Rightarrow> abort_signal option \<Rightarrow> int \<Rightarrow> (nat \<Rightarrow> js_error + bool) option \<Rightarrow>
   nat \<Rightarrow> js_error option \<Rightarrow> retry_trace \<Rightarrow> (js_error + 'a) \<times> retry_trace" where
  "retry_loop fn sig maxRetries onUnauthorized attempt lastError tr =
     (if int attempt \<le> maxRetries then
        (let (r, tr1) =
               (if signal_aborted sig attempt then (Inl AbortError, tr)
                else (fn (calls tr), tr\<lparr>calls := Suc (calls tr)\<rparr>))
         in case r of
              Inr v \<Rightarrow> (Inr v, tr1)
            | Inl err \<Rightarrow>
                if err_name err = ''AbortError'' then (Inl err, tr1)
                else if truthy_status (status_of err)
                        \<and> the (status_of err) \<in> NON_RETRYABLE_STATUS_CODES then (Inl err, tr1)
                else if status_of err = Some 401 \<and> onUnauthorized \<noteq> None
                        \<and> int attempt < maxRetries then
                  (let tr2 = tr1\<lparr>refreshes := Suc (refreshes tr1)\<rparr> in
                   case the onUnauthorized (refreshes tr1) of
                     Inl e \<Rightarrow> (Inl e, tr2)
                   | Inr refreshed \<Rightarrow>
                       if refreshed
                       then retry_loop fn sig maxRetries onUnauthorized (Suc attempt) (Some err) tr2
                       else (Inl err, tr2))
                else if \<not> isRetryable err \<or> int attempt \<ge> maxRetries then (Inl err, tr1)
                else
                  (let tr2 = tr1\<lparr>waits := waits tr1 @ [backoff_delay attempt]\<rparr> in
                   if wait_aborted sig attempt then (Inl AbortError, tr2)
                   else retry_loop fn sig maxRetries onUnauthorized (Suc attempt) (Some err) tr2))
      else (Inl (case lastError of Some e \<Rightarrow> e | None \<Rightarrow> RetryFailed), tr))"
  by pat_completeness auto
termination
  by (relation "measure (\<lambda>(fn, sig, maxRetries, onU, attempt, lastError, tr).
        nat (maxRetries + 1 - int attempt))") auto

declare retry_loop.simps [simp del]

definition retryWithBackoff ::
  "(nat \<Rightarrow> js_error + 'a) \<Rightarrow> abort_signal option \<Rightarrow> int \<Rightarrow> (nat \<Rightarrow> js_error + bool) option \<Rightarrow>
   (js_error + 'a) \<times> retry_trace" where
  "retryWithBackoff fn sig maxRetries onUnauthorized =
     retry_loop fn sig maxRetries onUnauthorized 0 None no_trace"

text \<open>An invocation that throws an error carrying the given \<open>status\<close>, other than an abort.\<close>

definition fails_with_status :: "int \<Rightarrow> js_error + 'a \<Rightarrow> bool" where
  "fails_with_status s r =
     (case r of Inr v \<Rightarrow> False
      | Inl err \<Rightarrow> err_status err = Some s \<and> err_name err \<noteq> ''AbortError'')"

section \<open>Safe regular expressions (utils/safe-regex.ts)\<close>

text \<open>
  Strings are lists of characters, one per code unit of the JavaScript string.

  \<open>RegExp\<close> is the language's own: it is an argument of the model, an engine that
  compiles a pattern with flags to a matcher or fails with a \<open>SyntaxError\<close> (\<open>None\<close>), and
  tests a matcher on a string. No matcher here carries the \<open>g\<close> or \<open>y\<close> flag, so \<open>test\<close>
  has no state.
\<close>

record 'rx regexp_engine =
  compile :: "string \<Rightarrow> string \<Rightarrow> 'rx option"
  test :: "'rx \<Rightarrow> string \<Rightarrow> bool"

text \<open>
  The two heuristics are regular-expression literals of the source. They use character
  classes, grouping, concatenation and repetition only, which is the syntax below, matched
  by derivatives.
\<close>

datatype cclass = OneOf string | NoneOf string

datatype rx = Nothing | Eps | Atom cclass | Seq rx rx | Alt rx rx | Star rx

fun in_class :: "cclass \<Rightarrow> char \<Rightarrow> bool" where
  "in_class (OneOf cs) c = (c \<in> set cs)"
| "in_class (NoneOf cs) c = (c \<notin> set cs)"

fun nullable :: "rx \<Rightarrow> bool" where
  "nullable Nothing = False"
| "nullable Eps = True"
| "nullable (Atom a) = False"
| "nullable (Seq r s) = (nullable r \<and> nullable s)"
| "nullable (Alt r s) = (nullable r \<or> nullable s)"
| "nullable (Star r) = True"

fun deriv :: "char \<Rightarrow> rx \<Rightarrow> rx" where
  "deriv c Nothing = Nothing"
| "deriv c Eps = Nothing"
| "deriv c (Atom a) = (if in_class a c then Eps else Nothing)"
| "deriv c (Seq r s) =
     (if nullable r then Alt (Seq (deriv c r) s) (deriv c s) else Seq (deriv c r) s)"
| "deriv c (Alt r s) = Alt (deriv c r) (deriv c s)"
| "deriv c (Star r) = Seq (deriv c r) (Star r)"

text \<open>Whether the whole string is in the language.\<close>

fun rx_accepts :: "rx \<Rightarrow> string \<Rightarrow> bool" where
  "rx_accepts r [] = nullable r"
| "rx_accepts r (c # cs) = rx_accepts (deriv c r) cs"

text \<open>\<open>literal.test(s)\<close>: some substring of \<open>s\<close> is in the language.\<close>

definition any_star :: rx where
  "any_star = Star (Atom (NoneOf []))"

definition rx_test :: "rx \<Rightarrow> string \<Rightarrow> bool" where
  "rx_test r s = rx_accepts (Seq any_star (Seq r any_star)) s"

definition MAX_REGEX_LENGTH :: nat where
  "MAX_REGEX_LENGTH = 500"

text \<open>
  \<^verbatim>\<open>/(\([^)]*[+*][^)]*\))[+*]/\<close> and \<^verbatim>\<open>/(\([^)]*\|[^)]*\))[+*]{2,}/\<close>
\<close>

definition quantifier :: rx where
  "quantifier = Atom (OneOf ''+*'')"

definition not_close :: rx where
  "not_close = Star (Atom (NoneOf '')''))"

definition nested_quantifier :: rx where
  "nested_quantifier =
     Seq (Atom (OneOf ''(''))
       (Seq not_close (Seq quantifier (Seq not_close (Seq (Atom (OneOf '')'')) quantifier))))"

definition quantified_alternation :: rx where
  "quantified_alternation =
     Seq (Atom (OneOf ''(''))
       (Seq not_close (Seq (Atom (OneOf ''|'')) (Seq not_close (Seq (Atom (OneOf '')''))
         (Seq quantifier (Seq quantifier (Star quantifier)))))))"

definition REDOS_HEURISTICS :: "rx list" where
  "REDOS_HEURISTICS = [nested_quantifier, quantified_alternation]"

definition safeRegex :: "'rx regexp_engine \<Rightarrow> string \<Rightarrow> string \<Rightarrow> 'rx option" where
  "safeRegex E pattern flags =
     (if pattern = [] \<or> length pattern > MAX_REGEX_LENGTH then None
      else if list_ex (\<lambda>heuristic. rx_test heuristic pattern) REDOS_HEURISTICS then None
      else compile E pattern flags)"

definition safeRegexTest :: "'rx regexp_engine \<Rightarrow> 'rx \<Rightarrow> string \<Rightarrow> nat \<Rightarrow> bool" where
  "safeRegexTest E re input maxInputLength =
     (let truncated = (if length input > maxInputLength then take maxInputLength input else input)
      in test E re truncated)"

text \<open>
  One engine to run examples on: \<open>RegExp\<close> restricted to patterns made of letters, digits
  and spaces, under the flags \<open>i\<close> or none. Such a pattern always compiles and tests as
  a search for the pattern as a substring, letter case ignored under \<open>i\<close>. A pattern with
  any other character is outside this engine, which reports it as a syntax error; of those,
  the examples use only \<open>(\<close>, which JavaScript rejects too (unterminated group).
\<close>

definition to_lower :: "char \<Rightarrow> char" where
  "to_lower c =
     (case map_of (zip ''ABCDEFGHIJKLMNOPQRSTUVWXYZ'' ''abcdefghijklmnopqrstuvwxyz'') c of
        Some l \<Rightarrow> l | None \<Rightarrow> c)"

definition plain_char :: "char \<Rightarrow> bool" where
  "plain_char c =
     (c \<in> set ''abcdefghijklmnopqrstuvwxyzABCDEFGHIJKLMNOPQRSTUVWXYZ0123456789 '')"

fun starts_with :: "string \<Rightarrow> string \<Rightarrow> bool" where
  "starts_with [] s = True"
| "starts_with (p # ps) [] = False"
| "starts_with (p # ps) (c # cs) = (p = c \<and> starts_with ps cs)"

fun str_includes :: "string \<Rightarrow> string \<Rightarrow> bool" where
  "str_includes [] p = (p = [])"
| "str_includes (c # cs) p = (starts_with p (c # cs) \<or> str_includes cs p)"

definition literal_engine :: "(bool \<times> string) regexp_engine" where
  "literal_engine =
     \<lparr>compile = (\<lambda>pattern flags.
         if list_all plain_char pattern \<and> (flags = ''i'' \<or> flags = [])
         then Some (flags = ''i'', pattern) else None),
      test = (\<lambda>(ignore_case, pattern) s.
         if ignore_case then str_includes (map to_lower s) (map to_lower pattern)
         else str_includes s pattern)\<rparr>"

section \<open>Pattern store (services/pattern-storage.ts)\<close>

datatype level = LError | LWarning | LInfo | LCritical

record StoredPattern =
  pid :: string
  label :: string
  regex :: string
  level :: level
  discoveredAt :: int
  hitCount :: int
  description :: string
  example :: string

record PatternStore =
  version :: nat
  updatedAt :: int
  scopes :: "string \<rightharpoonup> StoredPattern list"

text \<open>\<open>PatternRegex\<close>, and \<open>LogPatternRegex\<close> of the log analysis, which has the same fields.\<close>

record PatternRegex =
  pr_regex :: string
  pr_level :: level
  pr_label :: string
  pr_description :: string

definition MAX_PATTERNS_PER_SCOPE :: nat where
  "MAX_PATTERNS_PER_SCOPE = 50"

definition defaultStore :: PatternStore where
  "defaultStore = \<lparr>version = 1, updatedAt = 0, scopes = Map.empty\<rparr>"

text \<open>
  \<open>find\<close> gives the first element that satisfies the test, and the code then assigns to
  its fields: the list with that one element changed, or \<open>None\<close> when no element does.
\<close>

fun update_first :: "('a \<Rightarrow> bool) \<Rightarrow> ('a \<Rightarrow> 'a) \<Rightarrow> 'a list \<Rightarrow> 'a list option" where
  "update_first P f [] = None"
| "update_first P f (x # xs) =
     (if P x then Some (f x # xs)
      else (case update_first P f xs of None \<Rightarrow> None | Some ys \<Rightarrow> Some (x # ys)))"

text \<open>
  The overlap test of one existing pattern against the lines the candidate matches: its
  regex is compiled (a failure skips the pattern), and the share of those lines it matches
  too is compared with 0.8. The quotient of two lengths below \<open>2^32\<close> and the double 0.8
  compare as the exact fractions do, so the comparison is made on rationals.
\<close>

definition overlapping :: "'rx regexp_engine \<Rightarrow> string list \<Rightarrow> StoredPattern \<Rightarrow> bool" where
  "overlapping E newMatches ep =
     (case compile E (regex ep) ''i'' of
        None \<Rightarrow> False
      | Some existingRegex \<Rightarrow>
          (let overlap = length (filter (test E existingRegex) newMatches)
           in (of_nat overlap :: rat) / of_nat (length newMatches) \<ge> 8 / 10))"

definition bump :: "StoredPattern \<Rightarrow> StoredPattern" where
  "bump ep = ep\<lparr>hitCount := hitCount ep + 1\<rparr>"

text \<open>
  The body of the loop over the candidates. \<open>newId\<close> and \<open>now\<close> are what \<open>generateId()\<close>
  and \<open>Date.now()\<close> return if this candidate is pushed.
\<close>

definition merge_candidate ::
  "'rx regexp_engine \<Rightarrow> (string \<rightharpoonup> string) option \<Rightarrow> string list option \<Rightarrow>
   StoredPattern list \<Rightarrow> PatternRegex \<times> string \<times> int \<Rightarrow> StoredPattern list" where
  "merge_candidate E examples logLines existing cand =
     (let (np, newId, now) = cand in
      case compile E (pr_regex np) ''i'' of
        None \<Rightarrow> existing
      | Some newRegex \<Rightarrow>
          (case update_first (\<lambda>e. regex e = pr_regex np)
                  (\<lambda>e. e\<lparr>hitCount := hitCount e + 1, label := pr_label np,
                          description := pr_description np\<rparr>) existing of
             Some existing' \<Rightarrow> existing'
           | None \<Rightarrow>
               (let newMatches = (case logLines of None \<Rightarrow> [] | Some ls \<Rightarrow> filter (test E newRegex) ls);
                    duplicate =
                      (if newMatches \<noteq> [] then update_first (overlapping E newMatches) bump existing
                       else None)
                in case duplicate of
                     Some existing' \<Rightarrow> existing'
                   | None \<Rightarrow>
                       existing @
                       [\<lparr>pid = newId, label = pr_label np, regex = pr_regex np, level = pr_level np,
                         discoveredAt = now, hitCount = 1, description = pr_description np,
                         example =
                           (case examples of None \<Rightarrow> []
                            | Some m \<Rightarrow> (case m (pr_regex np) of None \<Rightarrow> [] | Some ex \<Rightarrow> ex))\<rparr>])))"

text \<open>
  The cap: a stable sort by hit count, then by discovery time, both descending, and the
  first fifty kept.
\<close>

definition cap_scope :: "StoredPattern list \<Rightarrow> StoredPattern list" where
  "cap_scope existing =
     (if length existing > MAX_PATTERNS_PER_SCOPE
      then take MAX_PATTERNS_PER_SCOPE
             (sort_key (\<lambda>p. (- hitCount p, - discoveredAt p)) existing)
      else existing)"

text \<open>
  \<open>mergeAIPatterns\<close>. The write that \<open>savePatterns\<close> queues runs later and is not part of
  the store returned here.
\<close>

definition mergeAIPatterns ::
  "'rx regexp_engine \<Rightarrow> PatternStore \<Rightarrow> string \<Rightarrow> (PatternRegex \<times> string \<times> int) list \<Rightarrow>
   (string \<rightharpoonup> string) option \<Rightarrow> string list option \<Rightarrow> PatternStore" where
  "mergeAIPatterns E store scope newPatterns examples logLines =
     (let existing0 = (case scopes store scope of None \<Rightarrow> [] | Some ps \<Rightarrow> ps);
          existing = foldl (merge_candidate E examples logLines) existing0 newPatterns
      in store\<lparr>scopes := (scopes store)(scope \<mapsto> cap_scope existing)\<rparr>)"

definition removePattern :: "PatternStore \<Rightarrow> string \<Rightarrow> string \<Rightarrow> PatternStore" where
  "removePattern store scope patternId =
     (case scopes store scope of
        None \<Rightarrow> store
      | Some ps \<Rightarrow>
          store\<lparr>scopes := (scopes store)(scope \<mapsto> filter (\<lambda>p. pid p \<noteq> patternId) ps)\<rparr>)"

section \<open>Validation of returned pattern regexes (services/log-analyze.ts)\<close>

record LogPattern =
  lp_pattern :: string
  lp_count :: int
  lp_severity :: string
  lp_example :: string

record LogAnomaly =
  la_description :: string
  la_severity :: string
  la_timeRange :: "string option"
  la_detail :: string

record LogAnalysis =
  summary :: string
  health :: string
  patterns :: "LogPattern list"
  anomalies :: "LogAnomaly list"
  recommendations :: "string list"
  errorCount :: int
  warningCount :: int
  patternRegexes :: "PatternRegex list option"

record LogCacheData =
  cd_analysis :: LogAnalysis
  cd_logLines :: "string list"

definition MIN_PATTERN_MATCHES :: nat where
  "MIN_PATTERN_MATCHES = 3"

text \<open>The counting loop of the filter, which returns as soon as the count is reached.\<close>

fun enough_matches :: "'rx regexp_engine \<Rightarrow> 'rx \<Rightarrow> string list \<Rightarrow> nat \<Rightarrow> bool" where
  "enough_matches E re [] matchCount = False"
| "enough_matches E re (line # rest) matchCount =
     (if safeRegexTest E re line 5000
      then (if Suc matchCount \<ge> MIN_PATTERN_MATCHES then True
            else enough_matches E re rest (Suc matchCount))
      else enough_matches E re rest matchCount)"

definition validatePatternRegexes ::
  "'rx regexp_engine \<Rightarrow> PatternRegex list option \<Rightarrow> string list \<Rightarrow> PatternRegex list" where
  "validatePatternRegexes E pats lines =
     (case pats of
        None \<Rightarrow> []
      | Some ps \<Rightarrow>
          if ps = [] then []
          else filter (\<lambda>p. case safeRegex E (pr_regex p) ''i'' of
                              None \<Rightarrow> False
                            | Some re \<Rightarrow> enough_matches E re lines 0) ps)"

text \<open>\<open>logs.split("\n")\<close>\<close>

fun split_lines :: "string \<Rightarrow> string list" where
  "split_lines [] = [[]]"
| "split_lines (c # cs) =
     (if c = CHR 0x0A then [] # split_lines cs
      else (case split_lines cs of [] \<Rightarrow> [[c]] | l # ls \<Rightarrow> (c # l) # ls))"

definition getCacheKey :: "string \<Rightarrow> string \<Rightarrow> string option \<Rightarrow> string" where
  "getCacheKey namespace podName container =
     ''logs/'' @ namespace @ ''/'' @ podName @
     (case container of None \<Rightarrow> [] | Some c \<Rightarrow> if c = [] then [] else ''/'' @ c)"

text \<open>
  The end of \<open>analyzeLogsFn\<close>, from the response of the backend on: the returned regexes
  are validated against the lines of the logs, and the analysis is cached with the lines
  and returned.
\<close>

definition finish_analysis ::
  "'rx regexp_engine \<Rightarrow> LogCacheData BoundedCache \<Rightarrow> string \<Rightarrow> int \<Rightarrow> string \<Rightarrow>
   LogAnalysis \<Rightarrow> string \<Rightarrow> LogAnalysis \<times> LogCacheData BoundedCache" where
  "finish_analysis E cache cid now cacheKey response logs =
     (let lines = split_lines logs;
          result =
            (case patternRegexes response of
               None \<Rightarrow> response
             | Some ps \<Rightarrow>
                 if length ps > 0
                 then response\<lparr>patternRegexes := Some (validatePatternRegexes E (Some ps) lines)\<rparr>
                 else response)
      in (result, cache_set cache cid now cacheKey \<lparr>cd_analysis = result, cd_logLines = lines\<rparr>))"

text \<open>
  What the validation is meant to keep: a pattern whose regex passes \<open>safeRegex\<close> and
  matches at least three of the lines under \<open>safeRegexTest\<close>.
\<close>

definition keeps :: "'rx regexp_engine \<Rightarrow> string list \<Rightarrow> PatternRegex \<Rightarrow> bool" where
  "keeps E lines p =
     (case safeRegex E (pr_regex p) ''i'' of
        None \<Rightarrow> False
      | Some re \<Rightarrow> 3 \<le> length (filter (\<lambda>l. safeRegexTest E re l 5000) lines))"

section \<open>Relationship discovery (services/relationship-discovery.ts)\<close>

text \<open>
  Cluster objects are read through the fields the code reads, with the types the
  Kubernetes API gives them; an absent field is \<open>None\<close>, an absent list is empty.
\<close>

record OwnerReference =
  ref_kind :: string
  ref_apiVersion :: "string option"
  ref_name :: string
  ref_uid :: string

record Condition =
  cond_type :: string
  cond_status :: string
  cond_reason :: "string option"

record KubeObject =
  obj_kind :: "string option"
  obj_apiVersion :: "string option"
  obj_name :: "string option"
  obj_namespace :: "string option"
  obj_uid :: "string option"
  obj_ownerReferences :: "OwnerReference list"
  obj_phase :: "string option"
  obj_conditions :: "Condition list"
  obj_readyReplicas :: "int option"
  obj_replicas :: "int option"

record APIResource =
  res_name :: string
  res_kind :: "string option"
  res_namespaced :: bool

record RelatedResource =
  rr_kind :: string
  rr_apiVersion :: string
  rr_name :: "string option"
  rr_namespace :: "string option"
  rr_relationship :: string
  rr_status :: "string option"
  rr_detail :: "string option"

record ResourceRelationships =
  owners :: "RelatedResource list"
  children :: "RelatedResource list"
  selectorTargets :: "RelatedResource list"
  specReferences :: "RelatedResource list"

text \<open>
  The cluster API answers a GET on a path with a JSON document: an object, a list with
  \<open>items\<close>, or a discovery document with \<open>resources\<close>. \<open>None\<close> is a request that throws
  or answers \<open>null\<close>; every caller below treats the two alike (\<open>apiGetSafe\<close>, or a
  \<open>try\<close> around \<open>apiGet\<close>).
\<close>

datatype response = Object KubeObject | ItemList "KubeObject list" | Discovery "APIResource list"

type_synonym cluster_api = "string \<Rightarrow> response option"

definition blank_object :: KubeObject where
  "blank_object = \<lparr>obj_kind = None, obj_apiVersion = None, obj_name = None,
     obj_namespace = None, obj_uid = None, obj_ownerReferences = [], obj_phase = None,
     obj_conditions = [], obj_readyReplicas = None, obj_replicas = None\<rparr>"

fun as_object :: "response \<Rightarrow> KubeObject" where
  "as_object (Object obj) = obj"
| "as_object (ItemList xs) = blank_object"
| "as_object (Discovery rs) = blank_object"

fun items_of :: "response option \<Rightarrow> KubeObject list option" where
  "items_of (Some (ItemList xs)) = Some xs"
| "items_of r = None"

fun resources_of :: "response option \<Rightarrow> APIResource list" where
  "resources_of (Some (Discovery rs)) = rs"
| "resources_of r = []"

definition apiGetSafe :: "cluster_api \<Rightarrow> string \<Rightarrow> response option" where
  "apiGetSafe api path = api path"

text \<open>Truthiness of an optional string, and \<open>a || b\<close> on it.\<close>

definition truthy :: "string option \<Rightarrow> bool" where
  "truthy s = (case s of None \<Rightarrow> False | Some v \<Rightarrow> v \<noteq> [])"

definition or_else :: "string option \<Rightarrow> string \<Rightarrow> string" where
  "or_else s d = (if truthy s then the s else d)"

text \<open>Decimal digits of a number, for the template strings.\<close>

function string_of_nat :: "nat \<Rightarrow> string" where
  "string_of_nat n =
     (if n < 10 then [''0123456789'' ! n]
      else string_of_nat (n div 10) @ [''0123456789'' ! (n mod 10)])"
  by pat_completeness auto
termination
  by (relation "measure id") auto

declare string_of_nat.simps [simp del]

definition string_of_int :: "int \<Rightarrow> string" where
  "string_of_int i = (if i < 0 then ''-'' @ string_of_nat (nat (- i)) else string_of_nat (nat i))"

text \<open>The dash U+2014 that stands for "no status", in UTF-8.\<close>

definition EM_DASH :: string where
  "EM_DASH = [CHR 0xE2, CHR 0x80, CHR 0x94]"

fun join :: "string \<Rightarrow> string list \<Rightarrow> string" where
  "join sep [] = []"
| "join sep [x] = x"
| "join sep (x # y # ys) = x @ sep @ join sep (y # ys)"

definition summarizeStatus :: "KubeObject \<Rightarrow> string" where
  "summarizeStatus obj =
     (if obj_kind obj = Some ''Pod'' \<or> truthy (obj_phase obj) then or_else (obj_phase obj) ''Unknown''
      else if obj_conditions obj \<noteq> [] then
        (case find (\<lambda>c. cond_type c = ''Ready'' \<or> cond_type c = ''Available'') (obj_conditions obj) of
           Some ready \<Rightarrow>
             if cond_status ready = ''True'' then ''Ready''
             else ''NotReady ('' @ or_else (cond_reason ready) [] @ '')''
         | None \<Rightarrow> join '', '' (map (\<lambda>c. cond_type c @ ''='' @ cond_status c) (obj_conditions obj)))
      else (case obj_readyReplicas obj of
              Some ready \<Rightarrow>
                string_of_int ready @ ''/'' @
                (case obj_replicas obj of None \<Rightarrow> ''?'' | Some d \<Rightarrow> string_of_int d) @ '' ready''
            | None \<Rightarrow> EM_DASH))"

subsection \<open>The path of a resource\<close>

definition toLowerCase :: "string \<Rightarrow> string" where
  "toLowerCase s = map to_lower s"

definition endsWith :: "string \<Rightarrow> string \<Rightarrow> bool" where
  "endsWith s suf = (length suf \<le> length s \<and> drop (length s - length suf) s = suf)"

definition irregulars :: "string \<rightharpoonup> string" where
  "irregulars =
     [''Ingress'' \<mapsto> ''ingresses'', ''NetworkPolicy'' \<mapsto> ''networkpolicies'',
      ''Endpoints'' \<mapsto> ''endpoints'', ''EndpointSlice'' \<mapsto> ''endpointslices'']"

definition guessPluralName :: "string \<Rightarrow> string" where
  "guessPluralName k =
     (case irregulars k of
        Some plural \<Rightarrow> plural
      | None \<Rightarrow>
          (let lower = toLowerCase k in
           if endsWith lower ''s'' then lower
           else if endsWith lower ''y'' then butlast lower @ ''ies''
           else lower @ ''s''))"

definition buildResourcePath :: "string \<Rightarrow> string \<Rightarrow> string option \<Rightarrow> string option \<Rightarrow> string" where
  "buildResourcePath apiVersion k namespace name =
     (let plural = guessPluralName k;
          basePath = (if CHR ''/'' \<notin> set apiVersion then ''/api/'' @ apiVersion
                      else ''/apis/'' @ apiVersion)
      in if truthy namespace then
           (if truthy name then basePath @ ''/namespaces/'' @ the namespace @ ''/'' @ plural @ ''/'' @ the name
            else basePath @ ''/namespaces/'' @ the namespace @ ''/'' @ plural)
         else
           (if truthy name then basePath @ ''/'' @ plural @ ''/'' @ the name
            else basePath @ ''/'' @ plural))"

definition resolveOwnerRef :: "cluster_api \<Rightarrow> OwnerReference \<Rightarrow> string option \<Rightarrow> response option" where
  "resolveOwnerRef api ref namespace =
     (let apiVersion = or_else (ref_apiVersion ref) ''v1'';
          path = buildResourcePath apiVersion (ref_kind ref) namespace (Some (ref_name ref))
      in if path = [] then None else apiGetSafe api path)"

subsection \<open>Strategy A: walking the owner references up\<close>

text \<open>
  The inner loop over the references of one level. It carries \<open>current\<close>, which the first
  reference replaces by the owner when the owner is fetched, and reports whether that
  happened. \<open>idx\<close> is the position of the reference among those of the level.
\<close>

fun visit_refs ::
  "cluster_api \<Rightarrow> nat \<Rightarrow> nat \<Rightarrow> OwnerReference list \<Rightarrow> KubeObject \<Rightarrow> bool \<Rightarrow>
   RelatedResource list \<times> KubeObject \<times> bool" where
  "visit_refs api depth idx [] current moved = ([], current, moved)"
| "visit_refs api depth idx (ref # rest) current moved =
     (let owner = \<lparr>rr_kind = ref_kind ref, rr_apiVersion = or_else (ref_apiVersion ref) [],
                    rr_name = Some (ref_name ref), rr_namespace = obj_namespace current,
                    rr_relationship =
                      (if depth = 0 then ''direct owner''
                       else ''owner (depth '' @ string_of_nat (depth + 1) @ '')''),
                    rr_status = None, rr_detail = None\<rparr>
      in case resolveOwnerRef api ref (obj_namespace current) of
           None \<Rightarrow>
             (let (os, c, m) = visit_refs api depth (Suc idx) rest current moved
              in (owner # os, c, m))
         | Some r \<Rightarrow>
             (let ownerObj = as_object r;
                  owner' = owner\<lparr>rr_status := Some (summarizeStatus ownerObj)\<rparr>;
                  (os, c, m) =
                    (if idx = 0 then visit_refs api depth (Suc idx) rest ownerObj True
                     else visit_refs api depth (Suc idx) rest current moved)
              in (owner' # os, c, m)))"

text \<open>
  The outer loop. \<open>same\<close> tells whether \<open>current\<close> is still the object the walk started
  from, which is what \<open>current === object\<close> asks: an owner comes fresh from the API and is
  never that object.
\<close>

function walk_levels ::
  "cluster_api \<Rightarrow> nat \<Rightarrow> nat \<Rightarrow> KubeObject \<Rightarrow> bool \<Rightarrow> RelatedResource list" where
  "walk_levels api maxDepth depth current same =
     (if depth < maxDepth then
        (let refs = obj_ownerReferences current in
         if refs = [] then []
         else
           (let (os, current', moved) = visit_refs api depth 0 refs current False;
                same' = (same \<and> \<not> moved)
            in if same' \<and> depth = 0 then os
               else os @ walk_levels api maxDepth (Suc depth) current' same'))
      else [])"
  by pat_completeness auto
termination
  by (relation "measure (\<lambda>(api, maxDepth, depth, current, same). maxDepth - depth)") auto

declare walk_levels.simps [simp del]

definition walkOwnersUp :: "cluster_api \<Rightarrow> KubeObject \<Rightarrow> nat \<Rightarrow> RelatedResource list" where
  "walkOwnersUp api object maxDepth = walk_levels api maxDepth 0 object True"

subsection \<open>Strategy B: searching the children\<close>

record search_path =
  groupVersion :: string
  resource :: string
  sp_kind :: string

definition CHILD_SEARCH_PATHS :: "search_path list" where
  "CHILD_SEARCH_PATHS =
     [\<lparr>groupVersion = ''v1'', resource = ''pods'', sp_kind = ''Pod''\<rparr>,
      \<lparr>groupVersion = ''v1'', resource = ''services'', sp_kind = ''Service''\<rparr>,
      \<lparr>groupVersion = ''v1'', resource = ''configmaps'', sp_kind = ''ConfigMap''\<rparr>,
      \<lparr>groupVersion = ''v1'', resource = ''secrets'', sp_kind = ''Secret''\<rparr>,
      \<lparr>groupVersion = ''v1'', resource = ''persistentvolumeclaims'',
        sp_kind = ''PersistentVolumeClaim''\<rparr>,
      \<lparr>groupVersion = ''v1'', resource = ''events'', sp_kind = ''Event''\<rparr>,
      \<lparr>groupVersion = ''apps/v1'', resource = ''replicasets'', sp_kind = ''ReplicaSet''\<rparr>,
      \<lparr>groupVersion = ''apps/v1'', resource = ''deployments'', sp_kind = ''Deployment''\<rparr>,
      \<lparr>groupVersion = ''apps/v1'', resource = ''statefulsets'', sp_kind = ''StatefulSet''\<rparr>,
      \<lparr>groupVersion = ''apps/v1'', resource = ''daemonsets'', sp_kind = ''DaemonSet''\<rparr>,
      \<lparr>groupVersion = ''apps/v1'', resource = ''controllerrevisions'',
        sp_kind = ''ControllerRevision''\<rparr>,
      \<lparr>groupVersion = ''batch/v1'', resource = ''jobs'', sp_kind = ''Job''\<rparr>,
      \<lparr>groupVersion = ''batch/v1'', resource = ''cronjobs'', sp_kind = ''CronJob''\<rparr>,
      \<lparr>groupVersion = ''networking.k8s.io/v1'', resource = ''ingresses'', sp_kind = ''Ingress''\<rparr>,
      \<lparr>groupVersion = ''autoscaling/v2'', resource = ''horizontalpodautoscalers'',
        sp_kind = ''HorizontalPodAutoscaler''\<rparr>,
      \<lparr>groupVersion = ''policy/v1'', resource = ''poddisruptionbudgets'',
        sp_kind = ''PodDisruptionBudget''\<rparr>,
      \<lparr>groupVersion = ''cert-manager.io/v1'', resource = ''certificates'',
        sp_kind = ''Certificate''\<rparr>,
      \<lparr>groupVersion = ''cert-manager.io/v1'', resource = ''certificaterequests'',
        sp_kind = ''CertificateRequest''\<rparr>,
      \<lparr>groupVersion = ''cert-manager.io/v1'', resource = ''orders'', sp_kind = ''Order''\<rparr>,
      \<lparr>groupVersion = ''acme.cert-manager.io/v1'', resource = ''orders'', sp_kind = ''Order''\<rparr>,
      \<lparr>groupVersion = ''acme.cert-manager.io/v1'', resource = ''challenges'',
        sp_kind = ''Challenge''\<rparr>]"

definition batchSize :: nat where
  "batchSize = 5"

text \<open>
  What a search asked of the API: the list requests of each batch over the well-known
  types, the discovery requests, and the list requests of the supplemental pass.
\<close>

record search_trace =
  batches :: "string list list"
  discovery :: "string list"
  supplemental :: "string list"

definition no_requests :: search_trace where
  "no_requests = \<lparr>batches = [], discovery = [], supplemental = []\<rparr>"

definition owned_by :: "string \<Rightarrow> KubeObject \<Rightarrow> bool" where
  "owned_by uid item = list_ex (\<lambda>ref. ref_uid ref = uid) (obj_ownerReferences item)"

definition list_path :: "string \<Rightarrow> string option \<Rightarrow> string \<Rightarrow> string" where
  "list_path basePath namespace res =
     (if truthy namespace then basePath @ ''/namespaces/'' @ the namespace @ ''/'' @ res @ ''?limit=100''
      else basePath @ ''/'' @ res @ ''?limit=100'')"

definition base_path :: "string \<Rightarrow> string" where
  "base_path gv = (if CHR ''/'' \<in> set gv then ''/apis/'' @ gv else ''/api/'' @ gv)"

text \<open>One request of a batch: the path asked, and the children found there.\<close>

definition search_one ::
  "cluster_api \<Rightarrow> string \<Rightarrow> string option \<Rightarrow> search_path \<Rightarrow> string \<times> RelatedResource list" where
  "search_one api uid namespace p =
     (let listPath = list_path (base_path (groupVersion p)) namespace (resource p) in
      (listPath,
       case items_of (apiGetSafe api listPath) of
         None \<Rightarrow> []
       | Some its \<Rightarrow>
           map (\<lambda>item. \<lparr>rr_kind = or_else (obj_kind item) (sp_kind p),
                         rr_apiVersion = groupVersion p, rr_name = obj_name item,
                         rr_namespace = obj_namespace item, rr_relationship = ''child (owned)'',
                         rr_status = Some (summarizeStatus item), rr_detail = None\<rparr>)
             (filter (owned_by uid) its)))"

text \<open>
  The loop over the batches. The requests of a batch are all issued when the batch starts;
  \<open>timed_out\<close> tells for each start index whether the ten-second timer wins the race, in
  which case the results of the batch are dropped.
\<close>

function search_batches ::
  "cluster_api \<Rightarrow> (nat \<Rightarrow> bool) \<Rightarrow> string \<Rightarrow> string option \<Rightarrow> int \<Rightarrow> search_path list \<Rightarrow>
   nat \<Rightarrow> RelatedResource list \<Rightarrow> string list list \<Rightarrow> RelatedResource list \<times> string list list" where
  "search_batches api timed_out uid namespace maxChildren paths i found asked =
     (if i < length paths then
        (let batch = take batchSize (drop i paths);
             answers = map (search_one api uid namespace) batch;
             results = (if timed_out i then [] else map snd answers);
             found' = found @ concat results;
             asked' = asked @ [map fst answers]
         in if int (length found') \<ge> maxChildren then (found', asked')
            else search_batches api timed_out uid namespace maxChildren paths (i + batchSize)
                   found' asked')
      else (found, asked))"
  by pat_completeness auto
termination
  by (relation "measure (\<lambda>(api, timed_out, uid, namespace, maxChildren, paths, i, found, asked).
        length paths - i)") (auto simp: batchSize_def)

declare search_batches.simps [simp del]

definition discoverGroupResources :: "cluster_api \<Rightarrow> string \<Rightarrow> APIResource list" where
  "discoverGroupResources api gv = resources_of (api (base_path gv))"

text \<open>The loop of the supplemental pass over the resources of the object's own API group.\<close>

fun search_group ::
  "cluster_api \<Rightarrow> string \<Rightarrow> string option \<Rightarrow> int \<Rightarrow> string \<Rightarrow> APIResource list \<Rightarrow>
   RelatedResource list \<Rightarrow> string list \<Rightarrow> RelatedResource list \<times> string list" where
  "search_group api uid namespace maxChildren objApiVersion [] found asked = (found, asked)"
| "search_group api uid namespace maxChildren objApiVersion (res # rest) found asked =
     (let listPath = list_path (''/apis/'' @ objApiVersion) namespace (res_name res);
          asked' = asked @ [listPath]
      in case items_of (apiGetSafe api listPath) of
           None \<Rightarrow> search_group api uid namespace maxChildren objApiVersion rest found asked'
         | Some its \<Rightarrow>
             (let found' = found @
                    map (\<lambda>item. \<lparr>rr_kind =
                                     (if truthy (res_kind res) then the (res_kind res)
                                      else or_else (obj_kind item) (res_name res)),
                                   rr_apiVersion = objApiVersion, rr_name = obj_name item,
                                   rr_namespace = obj_namespace item,
                                   rr_relationship = ''child (owned)'',
                                   rr_status = Some (summarizeStatus item), rr_detail = None\<rparr>)
                      (filter (owned_by uid) its)
              in if int (length found') \<ge> maxChildren then (found', asked')
                 else search_group api uid namespace maxChildren objApiVersion rest found' asked'))"

definition findChildren ::
  "cluster_api \<Rightarrow> (nat \<Rightarrow> bool) \<Rightarrow> int \<Rightarrow> KubeObject \<Rightarrow> RelatedResource list \<times> search_trace" where
  "findChildren api timed_out maxChildren object =
     (if \<not> truthy (obj_uid object) then ([], no_requests)
      else
        (let uid = the (obj_uid object);
             namespace = obj_namespace object;
             (found, asked) =
               search_batches api timed_out uid namespace maxChildren CHILD_SEARCH_PATHS 0 [] [];
             objApiVersion = or_else (obj_apiVersion object) []
         in if CHR ''/'' \<in> set objApiVersion \<and> \<not> starts_with ''apps/'' objApiVersion
               \<and> \<not> starts_with ''batch/'' objApiVersion then
              (let resources = discoverGroupResources api objApiVersion;
                   namespacedResources =
                     filter (\<lambda>r. res_namespaced r \<and> CHR ''/'' \<notin> set (res_name r)) resources;
                   (found', asked') =
                     search_group api uid namespace maxChildren objApiVersion
                       (take 10 namespacedResources) found []
               in (found', \<lparr>batches = asked, discovery = [base_path objApiVersion],
                            supplemental = asked'\<rparr>))
            else (found, \<lparr>batches = asked, discovery = [], supplemental = []\<rparr>)))"

subsection \<open>The entry point\<close>

text \<open>
  Each strategy is an asynchronous function: whatever happens inside it, the caller gets a
  promise that fulfils with a list (\<open>Inr\<close>) or rejects (\<open>Inl\<close>). \<open>.catch(() => [])\<close> turns a
  rejection into the empty list, \<open>Promise.all\<close> rejects as soon as one of its promises
  does, and the function returns the four lists once all have fulfilled.
\<close>

type_synonym 'a settled = "js_error + 'a"

definition catch_empty :: "'a list settled \<Rightarrow> 'a list settled" where
  "catch_empty p = (case p of Inl err \<Rightarrow> Inr [] | Inr v \<Rightarrow> Inr v)"

definition Promise_all4 ::
  "'a settled \<Rightarrow> 'b settled \<Rightarrow> 'c settled \<Rightarrow> 'd settled \<Rightarrow> ('a \<times> 'b \<times> 'c \<times> 'd) settled" where
  "Promise_all4 p1 p2 p3 p4 =
     (case p1 of Inl e \<Rightarrow> Inl e | Inr a \<Rightarrow>
      (case p2 of Inl e \<Rightarrow> Inl e | Inr b \<Rightarrow>
       (case p3 of Inl e \<Rightarrow> Inl e | Inr c \<Rightarrow>
        (case p4 of Inl e \<Rightarrow> Inl e | Inr d \<Rightarrow> Inr (a, b, c, d)))))"

text \<open>
  \<open>discoverRelationships\<close>, over what the four strategies settle to for the object.
\<close>

definition discoverRelationships ::
  "RelatedResource list settled \<Rightarrow> RelatedResource list settled \<Rightarrow>
   RelatedResource list settled \<Rightarrow> RelatedResource list settled \<Rightarrow> ResourceRelationships settled" where
  "discoverRelationships walked found selected referenced =
     (case Promise_all4 (catch_empty walked) (catch_empty found)
             (catch_empty selected) (catch_empty referenced) of
        Inl e \<Rightarrow> Inl e
      | Inr (os, cs, ts, rs) \<Rightarrow>
          Inr \<lparr>owners = os, children = cs, selectorTargets = ts, specReferences = rs\<rparr>)"

text \<open>
  The first two strategies on a cluster, as modelled above; the selector and the
  spec-reference strategies enter by what they settle to.
\<close>

definition discoverRelationships_on ::
  "cluster_api \<Rightarrow> (nat \<Rightarrow> bool) \<Rightarrow> int \<Rightarrow> KubeObject \<Rightarrow>
   RelatedResource list settled \<Rightarrow> RelatedResource list settled \<Rightarrow> ResourceRelationships settled" where
  "discoverRelationships_on api timed_out maxChildren object selected referenced =
     discoverRelationships (Inr (walkOwnersUp api object 5))
       (Inr (fst (findChildren api timed_out maxChildren object))) selected referenced"

section \<open>Bounded cache: eviction\<close>

lemma map_delete_hd:
  "distinct (map fst (kv # rest)) \<Longrightarrow> map_delete (kv # rest) (fst kv) = rest"
  by (auto simp: map_delete_def filter_id_conv rev_image_eqI)

lemma evict_below: "map_size m < n \<Longrightarrow> evict n m = m"
  by (subst evict.simps) simp

lemma evict_at_capacity:
  assumes "distinct (map fst m)" and "map_size m = n" and "1 \<le> n"
  shows "evict n m = tl m"
proof (cases m)
  case Nil
  with assms show ?thesis by (simp add: map_size_def)
next
  case (Cons kv rest)
  with assms(1) have d: "map_delete m (fst kv) = rest"
    using map_delete_hd by blast
  have "map_size rest < n" using assms(2) Cons by (simp add: map_size_def)
  then have "evict n rest = rest" by (rule evict_below)
  with d Cons assms(2) show ?thesis
    by (subst evict.simps) (simp)
qed

lemma map_set_fresh: "\<not> map_has m k \<Longrightarrow> map_set m k v = m @ [(k, v)]"
  by (simp add: map_set_def)

lemma map_set_keys: "map_has m k \<Longrightarrow> map fst (map_set m k v) = map fst m"
  by (auto simp: map_set_def)

lemma scopedKey_inj: "scopedKey cid a = scopedKey cid b \<longleftrightarrow> a = b"
  by (simp add: scopedKey_def)

lemma set_many_snoc:
  "set_many c cid (xs @ [(k, d, now)]) = cache_set (set_many c cid xs) cid now k d"
  by (induction c cid xs rule: set_many.induct) auto

lemma set_many_maxSize: "maxSize (set_many c cid xs) = maxSize c"
  by (induction c cid xs rule: set_many.induct) (auto simp: cache_set_def Let_def)

lemma set_many_keys:
  assumes "1 \<le> maxSize c" and "cmap c = []" and "distinct (map fst xs)"
  shows "map fst (cmap (set_many c cid xs)) =
         drop (length xs - nat (maxSize c)) (map (\<lambda>x. scopedKey cid (fst x)) xs)"
  using assms(3)
proof (induction xs rule: rev_induct)
  case Nil
  then show ?case using assms(2) by simp
next
  case (snoc x xs)
  obtain k d now where x: "x = (k, d, now)" by (cases x)
  let ?c = "set_many c cid xs"
  let ?m = "cmap ?c"
  let ?n = "maxSize c"
  from snoc have IH: "map fst ?m = drop (length xs - nat ?n) (map (\<lambda>x. scopedKey cid (fst x)) xs)"
    and dk: "k \<notin> fst ` set xs" and dx: "distinct (map fst xs)"
    by (auto simp: x)
  have dist: "distinct (map fst ?m)"
    unfolding IH using dx
    by (intro distinct_drop) (simp add: distinct_map inj_on_def scopedKey_inj comp_def)
  have fresh: "scopedKey cid k \<notin> set (map fst ?m)"
  proof
    assume "scopedKey cid k \<in> set (map fst ?m)"
    then have "scopedKey cid k \<in> set (map (\<lambda>x. scopedKey cid (fst x)) xs)"
      unfolding IH by (rule in_set_dropD)
    then show False using dk by (force simp: scopedKey_inj)
  qed
  have len: "length ?m = length xs - (length xs - nat ?n)"
    using arg_cong[OF IH, of length] by simp
  have ms: "maxSize ?c = ?n" by (rule set_many_maxSize)
  show ?case
  proof (cases "int (length xs) < ?n")
    case True
    then have "map_size ?m < ?n" using len by (simp add: map_size_def)
    then have ev: "evict ?n ?m = ?m" by (rule evict_below)
    have nh: "\<not> map_has ?m (scopedKey cid k)" using fresh by (simp add: map_has_def)
    from True have z: "length xs - nat ?n = 0" "Suc (length xs) - nat ?n = 0" by linarith+
    show ?thesis
      unfolding x set_many_snoc
      by (simp add: cache_set_def Let_def ms ev map_set_fresh[OF nh] IH z)
  next
    case False
    with assms(1) have ge: "nat ?n \<le> length xs" by linarith
    then have "map_size ?m = ?n" using len assms(1) by (simp add: map_size_def)
    then have ev: "evict ?n ?m = tl ?m" using dist assms(1) by (intro evict_at_capacity)
    have nh: "\<not> map_has (tl ?m) (scopedKey cid k)"
      using fresh by (cases ?m) (auto simp: map_has_def)
    have sd: "Suc (length xs) - nat ?n = Suc (length xs - nat ?n)" using ge by linarith
    have "map fst (tl ?m) = drop (Suc (length xs - nat ?n)) (map (\<lambda>x. scopedKey cid (fst x)) xs)"
      by (simp add: map_tl IH drop_Suc tl_drop)
    moreover have "Suc 0 - nat ?n = 0" using assms(1) by linarith
    ultimately show ?thesis
      unfolding x set_many_snoc using ge
      by (simp add: cache_set_def Let_def ms ev map_set_fresh[OF nh] sd)
  qed
qed

lemma map_size_map_set:
  "map_size (map_set m k v) = (if map_has m k then map_size m else map_size m + 1)"
  by (simp add: map_set_def map_size_def)

lemma map_get_absent: "\<not> map_has m k \<Longrightarrow> map_get m k = None"
  by (simp add: map_has_def map_get_def map_of_eq_None_iff)

text \<open>
  Claim C6, for a capacity of at least one. A cache that starts empty and receives
  \<open>maxSize + 1\<close> writes with distinct keys under one cluster identifier holds exactly
  \<open>maxSize\<close> entries afterwards; the key written first is gone (the map has no such key
  and \<open>get\<close> misses); the keys left are the others, in the order written; and the last
  write, made at capacity, removed exactly the oldest entry of the map before appending.
\<close>

theorem cache_overflow_evicts_oldest:
  assumes "1 \<le> maxSize c" and "cmap c = []" and "distinct (map fst xs)"
    and "int (length xs) = maxSize c + 1"
  shows "cache_size (set_many c cid xs) = maxSize c
    \<and> \<not> map_has (cmap (set_many c cid xs)) (scopedKey cid (fst (hd xs)))
    \<and> fst (cache_get (set_many c cid xs) cid now ttl (fst (hd xs))) = None
    \<and> map fst (cmap (set_many c cid xs)) = map (\<lambda>x. scopedKey cid (fst x)) (tl xs)
    \<and> cmap (set_many c cid xs) =
        tl (cmap (set_many c cid (butlast xs))) @
        [(scopedKey cid (fst (last xs)),
          \<lparr>timestamp = snd (snd (last xs)), data = fst (snd (last xs))\<rparr>)]"
proof -
  let ?f = "\<lambda>x. scopedKey cid (fst x)"
  let ?r = "set_many c cid xs"
  from assms(1,4) have ne: "xs \<noteq> []" by auto
  have d1: "length xs - nat (maxSize c) = 1" using assms(1,4) by linarith
  have keys: "map fst (cmap ?r) = map ?f (tl xs)"
    using set_many_keys[OF assms(1,2,3), of cid] by (simp add: d1 drop_Suc map_tl)
  have size: "cache_size ?r = maxSize c"
    using arg_cong[OF keys, of length] assms(1,4) by (simp add: cache_size_def map_size_def)
  have absent: "\<not> map_has (cmap ?r) (?f (hd xs))"
  proof
    assume "map_has (cmap ?r) (?f (hd xs))"
    then have "?f (hd xs) \<in> ?f ` set (tl xs)" by (simp add: map_has_def keys)
    then obtain y where y: "y \<in> set (tl xs)" "fst y = fst (hd xs)"
      by (auto simp: scopedKey_inj)
    from ne assms(3) have "fst (hd xs) \<notin> fst ` set (tl xs)" by (cases xs) auto
    moreover from y have "fst (hd xs) \<in> fst ` set (tl xs)" by (metis imageI)
    ultimately show False by simp
  qed
  have miss: "fst (cache_get ?r cid now ttl (fst (hd xs))) = None"
    by (simp add: cache_get_def Let_def map_get_absent[OF absent])
  \<comment> \<open>the last call, made at capacity\<close>
  from ne obtain ys k d t where xs: "xs = ys @ [(k, d, t)]"
    by (metis rev_exhaust prod_cases3)
  have bl: "butlast xs = ys" and l: "last xs = (k, d, t)" by (simp_all add: xs)
  let ?b = "set_many c cid ys"
  have db: "distinct (map fst ys)" and kn: "k \<notin> fst ` set ys"
    using assms(3) by (simp_all add: xs)
  have leny: "int (length ys) = maxSize c" using assms(4) by (simp add: xs)
  have kb: "map fst (cmap ?b) = map ?f ys"
    using set_many_keys[OF assms(1,2) db, of cid] leny by simp
  have distb: "distinct (map fst (cmap ?b))"
    unfolding kb using db by (simp add: distinct_map inj_on_def scopedKey_inj comp_def)
  have sizeb: "map_size (cmap ?b) = maxSize c"
    using arg_cong[OF kb, of length] leny by (simp add: map_size_def)
  have ev: "evict (maxSize c) (cmap ?b) = tl (cmap ?b)"
    using distb sizeb assms(1) by (rule evict_at_capacity)
  have "scopedKey cid k \<notin> set (map fst (cmap ?b))"
    unfolding kb using kn by (force simp: scopedKey_inj)
  then have nh: "\<not> map_has (tl (cmap ?b)) (scopedKey cid k)"
    by (cases "cmap ?b") (auto simp: map_has_def)
  have "?r = cache_set ?b cid t k d" unfolding xs by (rule set_many_snoc)
  then have step: "cmap ?r = tl (cmap ?b) @ [(scopedKey cid k, \<lparr>timestamp = t, data = d\<rparr>)]"
    by (simp add: cache_set_def Let_def set_many_maxSize ev map_set_fresh[OF nh])
  have last_step: "cmap ?r = tl (cmap (set_many c cid (butlast xs))) @
        [(scopedKey cid (fst (last xs)),
          \<lparr>timestamp = snd (snd (last xs)), data = fst (snd (last xs))\<rparr>)]"
    unfolding bl l using step by simp
  show ?thesis using size absent miss keys last_step by blast
qed

theorem cache_overflow_evicts_oldest_witness:
  "1 \<le> maxSize (new_cache 2 :: nat BoundedCache)
   \<and> cache_size (set_many (new_cache 2)
      ''prod'' [(''a'', 10::nat, 100::int), (''b'', 20, 101), (''c'', 30, 102)]) = 2
   \<and> map fst (cmap (set_many (new_cache 2)
      ''prod'' [(''a'', 10::nat, 100::int), (''b'', 20, 101), (''c'', 30, 102)]))
      = [''prod:b'', ''prod:c'']"
proof -
  let ?c = "new_cache 2 :: nat BoundedCache"
  let ?xs = "[(''a'', 10::nat, 100::int), (''b'', 20, 101), (''c'', 30, 102)]"
  have h1: "1 \<le> maxSize ?c" and h2: "cmap ?c = []" by (simp_all add: new_cache_def)
  have h3: "distinct (map fst ?xs)" by simp
  have h4: "int (length ?xs) = maxSize ?c + 1" by (simp add: new_cache_def)
  note r = cache_overflow_evicts_oldest[OF h1 h2 h3 h4, of "''prod''" 0 0]
  from r have a: "cache_size (set_many ?c ''prod'' ?xs) = maxSize ?c" by (rule conjunct1)
  from r have b: "map fst (cmap (set_many ?c ''prod'' ?xs))
      = map (\<lambda>x. scopedKey ''prod'' (fst x)) (tl ?xs)" by blast
  show ?thesis using h1 a b by (simp add: scopedKey_def new_cache_def)
qed

text \<open>
  Claim C6 as stated covers every capacity. With \<open>maxSize = 0\<close> the eviction loop empties
  the map and stops at the \<open>break\<close>, then the write goes ahead: after \<open>maxSize + 1 = 1\<close>
  write the cache holds one entry, not \<open>maxSize\<close>, and the first key is present.
\<close>

theorem cache_capacity_zero_counterexample:
  "cache_size (set_many (new_cache 0) ''prod'' [(''a'', 10::nat, 100)]) = 1
   \<and> maxSize (new_cache 0 :: nat BoundedCache) = 0
   \<and> map_has (cmap (set_many (new_cache 0) ''prod'' [(''a'', 10::nat, 100)])) (scopedKey ''prod'' ''a'')"
  by (simp add: new_cache_def cache_set_def cache_size_def evict.simps map_size_def
      map_set_def map_has_def scopedKey_def)

text \<open>
  Claim C9. A write to a key the cache already holds, made while the size equals
  \<open>maxSize\<close>, first evicts the oldest entry. When the written key is not the oldest one, the
  oldest key is gone afterwards, the size is \<open>maxSize - 1\<close> and the remaining keys keep
  their places; when it is the oldest one, it is appended anew and the size stays
  \<open>maxSize\<close>. In both cases the key reads back the new entry.
\<close>

theorem set_existing_key_at_capacity:
  assumes "cache_ok c" and "cache_size c = maxSize c"
    and "map_has (cmap c) (scopedKey cid k)"
  shows "cmap (cache_set c cid now k v) =
           map_set (tl (cmap c)) (scopedKey cid k) \<lparr>timestamp = now, data = v\<rparr>
    \<and> \<not> map_has (cmap (cache_set c cid now k v)) (fst (hd (cmap c)))
         = (fst (hd (cmap c)) \<noteq> scopedKey cid k)
    \<and> (fst (hd (cmap c)) \<noteq> scopedKey cid k \<longrightarrow>
         cache_size (cache_set c cid now k v) = maxSize c - 1
         \<and> map fst (cmap (cache_set c cid now k v)) = tl (map fst (cmap c)))
    \<and> (fst (hd (cmap c)) = scopedKey cid k \<longrightarrow>
         cache_size (cache_set c cid now k v) = maxSize c
         \<and> map fst (cmap (cache_set c cid now k v)) = tl (map fst (cmap c)) @ [scopedKey cid k])
    \<and> map_get (cmap (cache_set c cid now k v)) (scopedKey cid k)
         = Some \<lparr>timestamp = now, data = v\<rparr>"
proof -
  let ?sk = "scopedKey cid k"
  let ?e = "\<lparr>timestamp = now, data = v\<rparr>"
  obtain kv rest where m: "cmap c = kv # rest"
    using assms(3) by (cases "cmap c") (auto simp: map_has_def)
  have d: "distinct (map fst (cmap c))" using assms(1) by (simp add: cache_ok_def)
  have one: "1 \<le> maxSize c" using assms(2) m by (simp add: cache_size_def map_size_def)
  have ev: "evict (maxSize c) (cmap c) = rest"
    using evict_at_capacity[OF d _ one] assms(2) m by (simp add: cache_size_def)
  have res: "cmap (cache_set c cid now k v) = map_set rest ?sk ?e"
    by (simp add: cache_set_def Let_def ev)
  have hd_notin: "fst kv \<notin> fst ` set rest" using d m by simp
  have lenr: "map_size rest = maxSize c - 1"
    using assms(2) m by (simp add: cache_size_def map_size_def)
  have got: "map_get (map_set rest ?sk ?e) ?sk = Some ?e"
  proof (cases "map_has rest ?sk")
    case True
    have "distinct (map fst rest)" using d m by simp
    then show ?thesis using True
      by (induction rest) (auto simp: map_set_def map_get_def map_has_def rev_image_eqI)
  next
    case False
    then have "map_of rest ?sk = None" by (simp add: map_has_def map_of_eq_None_iff)
    with False show ?thesis
      by (simp add: map_set_def map_get_def map_add_def)
  qed
  show ?thesis
  proof (cases "fst kv = ?sk")
    case True
    then have nh: "\<not> map_has rest ?sk" using hd_notin by (simp add: map_has_def)
    show ?thesis using True nh lenr got
      by (simp add: res m map_set_fresh[OF nh] cache_size_def map_size_def map_has_def)
  next
    case False
    then have h: "map_has rest ?sk" using assms(3) m by (auto simp: map_has_def)
    have "\<not> map_has (map_set rest ?sk ?e) (fst kv)"
      using hd_notin by (simp add: map_has_def map_set_keys[OF h])
    then show ?thesis using False h lenr got
      by (simp add: res m map_set_keys[OF h] cache_size_def map_size_map_set)
  qed
qed

theorem set_existing_key_at_capacity_witness:
  "cache_ok \<lparr>cmap = [(''p:a'', \<lparr>timestamp = 1, data = 10::nat\<rparr>),
                      (''p:b'', \<lparr>timestamp = 2, data = 20\<rparr>)], maxSize = 2\<rparr>
   \<and> cmap (cache_set \<lparr>cmap = [(''p:a'', \<lparr>timestamp = 1, data = 10::nat\<rparr>),
                      (''p:b'', \<lparr>timestamp = 2, data = 20\<rparr>)], maxSize = 2\<rparr> ''p'' 3 ''b'' 21)
      = [(''p:b'', \<lparr>timestamp = 3, data = 21\<rparr>)]"
proof -
  let ?c = "\<lparr>cmap = [(''p:a'', \<lparr>timestamp = 1, data = 10::nat\<rparr>),
                      (''p:b'', \<lparr>timestamp = 2, data = 20\<rparr>)], maxSize = 2\<rparr>"
  have h1: "cache_ok ?c" by (simp add: cache_ok_def)
  have h2: "cache_size ?c = maxSize ?c" by (simp add: cache_size_def map_size_def)
  have h3: "map_has (cmap ?c) (scopedKey ''p'' ''b'')" by (simp add: map_has_def scopedKey_def)
  note r = set_existing_key_at_capacity[OF h1 h2 h3, of 3 21]
  from r have "cmap (cache_set ?c ''p'' 3 ''b'' 21) =
      map_set (tl (cmap ?c)) (scopedKey ''p'' ''b'') \<lparr>timestamp = 3, data = 21\<rparr>"
    by (rule conjunct1)
  then show ?thesis using h1 by (simp add: scopedKey_def map_set_def map_has_def)
qed

section \<open>Persisted configuration: clamping\<close>

lemma Math_round_int: "Math_round (of_int n) = n"
  unfolding Math_round_def by linarith

lemma clampInt_merged:
  assumes "DEFAULTS_props k = Some (num fb)" and "lo \<le> fb" and "fb \<le> hi"
  shows "clampInt (get_prop (DEFAULTS_props ++ raw) k) lo hi fb =
     (case raw k of
        None \<Rightarrow> fb
      | Some (JNumber (Finite x)) \<Rightarrow> max lo (min hi (Math_round x))
      | Some _ \<Rightarrow> fb)"
proof (cases "raw k")
  case None
  then have "get_prop (DEFAULTS_props ++ raw) k = num fb"
    using assms(1) by (simp add: get_prop_def map_add_def)
  then show ?thesis using None assms(2,3)
    by (simp add: clampInt_def num_def Math_round_int)
next
  case (Some v)
  then have "get_prop (DEFAULTS_props ++ raw) k = v"
    by (simp add: get_prop_def map_add_def)
  then show ?thesis using Some
    by (simp add: clampInt_def split: js_value.splits js_number.splits)
qed

lemma validateConfig_fields:
  "\<forall>(key, field, lo, hi, fallback) \<in> set tunables.
     field (validateConfig raw) =
       (case raw key of
          None \<Rightarrow> fallback
        | Some (JNumber (Finite x)) \<Rightarrow> max lo (min hi (Math_round x))
        | Some _ \<Rightarrow> fallback)"
proof -
  have d: "DEFAULTS_props ''logTailLines'' = Some (num 500)"
    "DEFAULTS_props ''analysisMaxTokens'' = Some (num 4096)"
    "DEFAULTS_props ''apiTimeoutMs'' = Some (num 45000)"
    "DEFAULTS_props ''resourceCacheTtlMs'' = Some (num 300000)"
    "DEFAULTS_props ''logCacheTtlMs'' = Some (num 180000)"
    "DEFAULTS_props ''maxRelationshipChildren'' = Some (num 50)"
    by (simp_all add: DEFAULTS_props_def DEFAULTS_def)
  have f: "logTailLines DEFAULTS = 500" "analysisMaxTokens DEFAULTS = 4096"
    "apiTimeoutMs DEFAULTS = 45000" "resourceCacheTtlMs DEFAULTS = 300000"
    "logCacheTtlMs DEFAULTS = 180000" "maxRelationshipChildren DEFAULTS = 50"
    by (simp_all add: DEFAULTS_def)
  show ?thesis
    unfolding tunables_def validateConfig_def Let_def f
    by (simp add: clampInt_merged[OF d(1)] clampInt_merged[OF d(2)] clampInt_merged[OF d(3)]
        clampInt_merged[OF d(4)] clampInt_merged[OF d(5)] clampInt_merged[OF d(6)])
qed

text \<open>
  Claim C8, as the code has it. Loading the configuration when none is held yet gives
  the defaults when the file cannot be read or parsed. Otherwise each tunable is settled
  on its own: the fallback when its property is absent or is not a finite number; for a
  finite number, the number rounded to the nearest integer and then clamped into
  [min, max]. So a persisted integer within the range comes back as it is, and a
  number outside the range comes back as the nearer bound, not as the fallback.
\<close>

theorem tunables_clamped:
  "fst (getConfig None None) = DEFAULTS
   \<and> (\<forall>(key, field, lo, hi, fallback) \<in> set tunables.
        field (fst (getConfig None (Some raw))) =
          (case raw key of
             None \<Rightarrow> fallback
           | Some (JNumber (Finite x)) \<Rightarrow> max lo (min hi (Math_round x))
           | Some _ \<Rightarrow> fallback))"
  using validateConfig_fields[of raw] by (simp add: getConfig_def Let_def)

theorem tunables_clamped_witness:
  "logTailLines (fst (getConfig None (Some [''logTailLines'' \<mapsto> JNumber (Finite 250)]))) = 250
   \<and> apiTimeoutMs (fst (getConfig None (Some [''logTailLines'' \<mapsto> JNumber (Finite 250)])))
       = 45000"
proof -
  let ?raw = "[''logTailLines'' \<mapsto> JNumber (Finite 250)]"
  have m: "(''logTailLines'', logTailLines, 10, 10000, 500) \<in> set tunables"
    "(''apiTimeoutMs'', apiTimeoutMs, 5000, 120000, 45000) \<in> set tunables"
    by (simp_all add: tunables_def)
  note t = tunables_clamped[of ?raw, THEN conjunct2]
  have "Math_round 250 = 250" using Math_round_int[of 250] by simp
  then show ?thesis
    using t[THEN bspec, OF m(1)] t[THEN bspec, OF m(2)] by simp
qed

text \<open>
  Claim C8 as stated sends an out-of-range value to the fallback. A persisted
  \<open>logTailLines\<close> of 5 lies below the minimum 10; the loaded value is the bound 10, while
  the fallback is 500.
\<close>

theorem out_of_range_counterexample:
  "logTailLines (fst (getConfig None (Some [''logTailLines'' \<mapsto> JNumber (Finite 5)]))) = 10
   \<and> logTailLines DEFAULTS = 500 \<and> (5::rat) < 10"
proof -
  have "Math_round 5 = 5" using Math_round_int[of 5] by simp
  then show ?thesis
    by (simp add: getConfig_def Let_def validateConfig_def get_prop_def clampInt_def DEFAULTS_def)
qed

section \<open>Retry with backoff: the two test scenarios\<close>

lemma status_of_status: "err_status e = Some s \<Longrightarrow> s \<noteq> 0 \<Longrightarrow> status_of e = Some s"
  by (simp add: status_of_def truthy_status_def)

lemma retry_step_wait:
  assumes "int attempt < maxRetries" and "\<not> signal_aborted sig attempt"
    and "fn (calls tr) = Inl err" and "err_name err \<noteq> ''AbortError''"
    and "err_status err = Some 503" and "\<not> wait_aborted sig attempt"
  shows "retry_loop fn sig maxRetries onU attempt lastError tr =
         retry_loop fn sig maxRetries onU (Suc attempt) (Some err)
           (tr\<lparr>calls := Suc (calls tr), waits := waits tr @ [backoff_delay attempt]\<rparr>)"
proof -
  have s: "status_of err = Some 503" using assms(5) by (simp add: status_of_status)
  have r: "isRetryable err"
    by (simp add: isRetryable_def s truthy_status_def RETRYABLE_STATUS_CODES_def)
  show ?thesis
    using assms(1,2,3,4,6) r
    by (subst retry_loop.simps)
       (simp add: s truthy_status_def NON_RETRYABLE_STATUS_CODES_def Let_def)
qed

lemma retry_step_success:
  assumes "int attempt \<le> maxRetries" and "\<not> signal_aborted sig attempt"
    and "fn (calls tr) = Inr v"
  shows "retry_loop fn sig maxRetries onU attempt lastError tr = (Inr v, tr\<lparr>calls := Suc (calls tr)\<rparr>)"
  using assms by (subst retry_loop.simps) simp

lemma retry_step_fail_fast:
  assumes "int attempt \<le> maxRetries" and "\<not> signal_aborted sig attempt"
    and "fn (calls tr) = Inl err" and "err_status err = Some 403"
  shows "retry_loop fn sig maxRetries onU attempt lastError tr = (Inl err, tr\<lparr>calls := Suc (calls tr)\<rparr>)"
proof -
  have s: "status_of err = Some 403" using assms(4) by (simp add: status_of_status)
  show ?thesis using assms(1,2,3)
    by (subst retry_loop.simps)
       (simp add: s truthy_status_def NON_RETRYABLE_STATUS_CODES_def)
qed

text \<open>
  Claim C5, for a call whose signal, if any, is not aborted in its course. With
  \<open>maxRetries = 2\<close>: an operation whose first two invocations throw an error of status
  503 (not an abort) and whose third returns a value makes the call return that value,
  after exactly three invocations and the waits of 2000 and 6000 ms; an operation whose
  first invocation throws an error of status 403 is invoked exactly once and the call
  throws that same error, without waiting.
\<close>

theorem retry_503_twice_then_success_and_403_once:
  "(fails_with_status 503 (fn 0) \<and> fails_with_status 503 (fn 1) \<and> fn 2 = Inr v
      \<and> (\<forall>k \<in> {0, 1, 2}. \<not> signal_aborted sig k) \<and> (\<forall>k \<in> {0, 1}. \<not> wait_aborted sig k)
    \<longrightarrow> retryWithBackoff fn sig 2 onU = (Inr v, \<lparr>calls = 3, waits = [2000, 6000], refreshes = 0\<rparr>))
   \<and> (fn 0 = Inl err \<and> err_status err = Some 403 \<and> \<not> signal_aborted sig 0
    \<longrightarrow> retryWithBackoff fn sig 2 onU = (Inl err, \<lparr>calls = 1, waits = [], refreshes = 0\<rparr>))"
proof (intro conjI impI)
  assume a: "fails_with_status 503 (fn 0) \<and> fails_with_status 503 (fn 1) \<and> fn 2 = Inr v
      \<and> (\<forall>k \<in> {0, 1, 2}. \<not> signal_aborted sig k) \<and> (\<forall>k \<in> {0, 1}. \<not> wait_aborted sig k)"
  then obtain e0 e1 where e0: "fn 0 = Inl e0" "err_status e0 = Some 503" "err_name e0 \<noteq> ''AbortError''"
    and e1: "fn 1 = Inl e1" "err_status e1 = Some 503" "err_name e1 \<noteq> ''AbortError''"
    by (auto simp: fails_with_status_def split: sum.splits)
  from a have v: "fn 2 = Inr v" and s: "\<not> signal_aborted sig 0" "\<not> signal_aborted sig 1"
    "\<not> signal_aborted sig 2" and w: "\<not> wait_aborted sig 0" "\<not> wait_aborted sig 1"
    by simp_all
  let ?t1 = "\<lparr>calls = 1, waits = [2000], refreshes = 0\<rparr>"
  let ?t2 = "\<lparr>calls = 2, waits = [2000, 6000], refreshes = 0\<rparr>"
  have "retryWithBackoff fn sig 2 onU = retry_loop fn sig 2 onU 1 (Some e0) ?t1"
    unfolding retryWithBackoff_def
    using retry_step_wait[of 0 2 sig fn no_trace e0 onU None] e0 s(1) w(1)
    by (simp add: no_trace_def backoff_delay_def BACKOFF_DELAYS_def)
  also have "\<dots> = retry_loop fn sig 2 onU 2 (Some e1) ?t2"
    using retry_step_wait[of 1 2 sig fn ?t1 e1 onU "Some e0"] e1 s(2) w(2)
    by (simp add: backoff_delay_def BACKOFF_DELAYS_def numeral_2_eq_2)
  also have "\<dots> = (Inr v, \<lparr>calls = 3, waits = [2000, 6000], refreshes = 0\<rparr>)"
    using retry_step_success[of 2 2 sig fn ?t2 v onU "Some e1"] v s(3) by simp
  finally show "retryWithBackoff fn sig 2 onU = (Inr v, \<lparr>calls = 3, waits = [2000, 6000], refreshes = 0\<rparr>)" .
next
  assume "fn 0 = Inl err \<and> err_status err = Some 403 \<and> \<not> signal_aborted sig 0"
  then show "retryWithBackoff fn sig 2 onU = (Inl err, \<lparr>calls = 1, waits = [], refreshes = 0\<rparr>)"
    unfolding retryWithBackoff_def
    using retry_step_fail_fast[of 0 2 sig fn no_trace err onU None]
    by (simp add: no_trace_def)
qed

theorem retry_503_twice_then_success_and_403_once_witness:
  "retryWithBackoff
     (\<lambda>k. if k < 2
          then Inl \<lparr>err_name = ''APIError'', err_message = ''overloaded'', err_status = Some 503,
                    err_statusCode = None, err_code = None\<rparr>
          else Inr (42::nat)) None 2 None
     = (Inr 42, \<lparr>calls = 3, waits = [2000, 6000], refreshes = 0\<rparr>)
   \<and> retryWithBackoff
     (\<lambda>k. Inl \<lparr>err_name = ''APIError'', err_message = ''forbidden'', err_status = Some 403,
                    err_statusCode = None, err_code = None\<rparr> :: js_error + nat) None 2 None
     = (Inl \<lparr>err_name = ''APIError'', err_message = ''forbidden'', err_status = Some 403,
                    err_statusCode = None, err_code = None\<rparr>,
        \<lparr>calls = 1, waits = [], refreshes = 0\<rparr>)"
proof -
  let ?e = "\<lparr>err_name = ''APIError'', err_message = ''overloaded'', err_status = Some 503,
                    err_statusCode = None, err_code = None\<rparr>"
  let ?f = "\<lparr>err_name = ''APIError'', err_message = ''forbidden'', err_status = Some 403,
                    err_statusCode = None, err_code = None\<rparr>"
  let ?fn = "\<lambda>k::nat. if k < 2 then Inl ?e else Inr (42::nat)"
  let ?gn = "\<lambda>k::nat. Inl ?f :: js_error + nat"
  have "retryWithBackoff ?fn None 2 None
          = (Inr 42, \<lparr>calls = 3, waits = [2000, 6000], refreshes = 0\<rparr>)"
    using retry_503_twice_then_success_and_403_once[of ?fn 42 None None ?e, THEN conjunct1]
    by (simp add: fails_with_status_def signal_aborted_def wait_aborted_def)
  moreover have "retryWithBackoff ?gn None 2 None
          = (Inl ?f, \<lparr>calls = 1, waits = [], refreshes = 0\<rparr>)"
    using retry_503_twice_then_success_and_403_once[of ?gn 0 None None ?f, THEN conjunct2]
    by (simp add: signal_aborted_def)
  ultimately show ?thesis by simp
qed

section \<open>Pattern store: merging candidates\<close>

lemma update_first_None: "update_first P f xs = None \<longleftrightarrow> (\<forall>x \<in> set xs. \<not> P x)"
  by (induction xs) (auto split: option.splits)

lemma update_first_Some:
  "update_first P f xs = Some ys \<Longrightarrow>
     \<exists>i < length xs. P (xs ! i) \<and> (\<forall>j < i. \<not> P (xs ! j)) \<and> ys = xs[i := f (xs ! i)]"
proof (induction xs arbitrary: ys)
  case Nil
  then show ?case by simp
next
  case (Cons x xs)
  show ?case
  proof (cases "P x")
    case True
    with Cons.prems have "ys = (x # xs)[0 := f ((x # xs) ! 0)]" by simp
    with True show ?thesis by (intro exI[of _ 0]) simp
  next
    case False
    with Cons.prems obtain zs where zs: "update_first P f xs = Some zs" "ys = x # zs"
      by (auto split: option.splits)
    from Cons.IH[OF zs(1)] obtain i where i: "i < length xs" "P (xs ! i)"
      "\<forall>j < i. \<not> P (xs ! j)" "zs = xs[i := f (xs ! i)]" by blast
    have "\<forall>j < Suc i. \<not> P ((x # xs) ! j)"
      using False i(3) by (auto simp: less_Suc_eq_0_disj)
    with i zs(2) show ?thesis by (intro exI[of _ "Suc i"]) simp
  qed
qed

lemma update_first_exists:
  "\<exists>x \<in> set xs. P x \<Longrightarrow> \<exists>ys. update_first P f xs = Some ys"
  using update_first_None[of P f xs] by (cases "update_first P f xs") auto

lemma merge_candidate_uncompilable:
  "compile E (pr_regex np) ''i'' = None \<Longrightarrow>
   merge_candidate E examples lls existing (np, newId, now) = existing"
  by (simp add: merge_candidate_def)

lemma subset_overlapping:
  assumes "compile E (regex ep) ''i'' = Some er" and "newMatches \<noteq> []"
    and "\<forall>l \<in> set newMatches. test E er l"
  shows "overlapping E newMatches ep"
proof -
  have "filter (test E er) newMatches = newMatches" using assms(3) by (simp add: filter_id_conv)
  then show ?thesis using assms(1,2) by (simp add: overlapping_def)
qed

lemma cap_scope_small: "length xs \<le> 50 \<Longrightarrow> cap_scope xs = xs"
  by (simp add: cap_scope_def MAX_PATTERNS_PER_SCOPE_def)

lemma long_plain: "list_all plain_char (replicate 501 CHR ''a'')"
  by (simp add: list_all_iff plain_char_def)

text \<open>
  Claim C1, as the code has it. \<open>mergeAIPatterns\<close> validates a candidate by compiling its
  regex with \<open>new RegExp\<close>, not with \<open>safeRegex\<close>. A candidate whose regex fails to
  compile is skipped: the loop body leaves the patterns of the scope as they are, and the
  whole call gives the same store as the call without that candidate, wherever it stands
  among the others.
\<close>

theorem uncompilable_candidate_rejected:
  "compile E (pr_regex np) ''i'' = None \<Longrightarrow>
     merge_candidate E examples lls existing (np, newId, now) = existing
     \<and> mergeAIPatterns E store scope (before @ (np, newId, now) # after) examples lls
       = mergeAIPatterns E store scope (before @ after) examples lls"
  by (simp add: mergeAIPatterns_def merge_candidate_uncompilable)

theorem uncompilable_candidate_rejected_witness:
  "compile literal_engine ''('' ''i'' = None
   \<and> mergeAIPatterns literal_engine defaultStore ''ns:default''
        [(\<lparr>pr_regex = ''('', pr_level = LError, pr_label = ''broken'', pr_description = ''d''\<rparr>,
          ''0123456789abcdef'', 1000)] None None
     = mergeAIPatterns literal_engine defaultStore ''ns:default'' [] None None"
proof -
  let ?np = "\<lparr>pr_regex = ''('', pr_level = LError, pr_label = ''broken'', pr_description = ''d''\<rparr>"
  have c: "compile literal_engine (pr_regex ?np) ''i'' = None"
    by (simp add: literal_engine_def plain_char_def)
  from uncompilable_candidate_rejected[OF c, of None None "[]" "''0123456789abcdef''" 1000
      defaultStore "''ns:default''" "[]" "[]", THEN conjunct2] c
  show ?thesis by simp
qed

text \<open>
  Claim C1 as stated rejects every candidate that \<open>safeRegex\<close> rejects. A pattern of 501
  letters \<open>a\<close> is rejected by \<open>safeRegex\<close> for its length, and compiles; merged into an
  empty store it is inserted as a new pattern with hit count 1.
\<close>

theorem unsafe_candidate_inserted_counterexample:
  "safeRegex literal_engine (replicate 501 CHR ''a'') ''i'' = None
   \<and> scopes (mergeAIPatterns literal_engine defaultStore ''ns:default''
        [(\<lparr>pr_regex = replicate 501 CHR ''a'', pr_level = LError, pr_label = ''long'',
           pr_description = ''d''\<rparr>, ''0123456789abcdef'', 1000)] None None) ''ns:default''
     = Some [\<lparr>pid = ''0123456789abcdef'', label = ''long'', regex = replicate 501 CHR ''a'',
              level = LError, discoveredAt = 1000, hitCount = 1, description = ''d'',
              example = []\<rparr>]"
proof -
  have c: "compile literal_engine (replicate 501 CHR ''a'') ''i''
             = Some (True, replicate 501 CHR ''a'')"
    using long_plain by (simp add: literal_engine_def)
  have s: "safeRegex literal_engine (replicate 501 CHR ''a'') ''i'' = None"
    by (simp add: safeRegex_def MAX_REGEX_LENGTH_def)
  show ?thesis
    by (simp add: s mergeAIPatterns_def defaultStore_def merge_candidate_def c cap_scope_def
        MAX_PATTERNS_PER_SCOPE_def)
qed

text \<open>
  Claim C7. A candidate that compiles, whose regex is not the regex of any pattern of the
  scope, and that matches at least one of the supplied log lines: when some pattern of the
  scope overlaps (its regex compiles and matches at least 0.8 of the lines the candidate
  matches), the first such pattern in the order of the scope has its hit count incremented
  by one, every other pattern and every other field stays as it was, and the scope gets no
  new entry. For a call with this one candidate on a scope of at most fifty patterns, that
  is the scope the store holds afterwards.
\<close>

theorem overlapping_candidate_bumps_first:
  assumes "compile E (pr_regex np) ''i'' = Some re"
    and "\<forall>e \<in> set existing. regex e \<noteq> pr_regex np"
    and "newMatches = filter (test E re) ls" and "newMatches \<noteq> []"
    and "\<exists>ep \<in> set existing. overlapping E newMatches ep"
  shows "\<exists>i < length existing.
           overlapping E newMatches (existing ! i)
         \<and> (\<forall>j < i. \<not> overlapping E newMatches (existing ! j))
         \<and> merge_candidate E examples (Some ls) existing (np, newId, now)
             = existing[i := (existing ! i)\<lparr>hitCount := hitCount (existing ! i) + 1\<rparr>]
         \<and> length (merge_candidate E examples (Some ls) existing (np, newId, now)) = length existing
         \<and> (scopes store scope = Some existing \<and> length existing \<le> 50 \<longrightarrow>
              scopes (mergeAIPatterns E store scope [(np, newId, now)] examples (Some ls)) scope
                = Some (existing[i := (existing ! i)\<lparr>hitCount := hitCount (existing ! i) + 1\<rparr>]))"
proof -
  have noexact: "update_first (\<lambda>e. regex e = pr_regex np)
                  (\<lambda>e. e\<lparr>hitCount := hitCount e + 1, label := pr_label np,
                          description := pr_description np\<rparr>) existing = None"
    using assms(2) by (simp add: update_first_None)
  from update_first_exists[OF assms(5), of bump] obtain ys
    where ys: "update_first (overlapping E newMatches) bump existing = Some ys" by blast
  from update_first_Some[OF ys] obtain i where i: "i < length existing"
    "overlapping E newMatches (existing ! i)"
    "\<forall>j < i. \<not> overlapping E newMatches (existing ! j)"
    "ys = existing[i := bump (existing ! i)]" by blast
  have m: "merge_candidate E examples (Some ls) existing (np, newId, now) = ys"
    using assms(1,3,4) noexact ys by (simp add: merge_candidate_def Let_def)
  have call: "scopes store scope = Some existing \<and> length existing \<le> 50 \<longrightarrow>
      scopes (mergeAIPatterns E store scope [(np, newId, now)] examples (Some ls)) scope = Some ys"
    using m i(4) by (auto simp: mergeAIPatterns_def Let_def cap_scope_small)
  show ?thesis
    using i m call by (intro exI[of _ i]) (simp add: bump_def)
qed

theorem overlapping_candidate_bumps_first_witness:
  "merge_candidate literal_engine None
     (Some [''connection timeout to db'', ''Connection Timeout again'', ''ready''])
     [\<lparr>pid = ''aa'', label = ''Timeout'', regex = ''timeout'', level = LWarning,
       discoveredAt = 10, hitCount = 4, description = ''timeouts'', example = []\<rparr>]
     (\<lparr>pr_regex = ''connection timeout'', pr_level = LError, pr_label = ''Conn'',
       pr_description = ''d''\<rparr>, ''bb'', 20)
   = [\<lparr>pid = ''aa'', label = ''Timeout'', regex = ''timeout'', level = LWarning,
       discoveredAt = 10, hitCount = 5, description = ''timeouts'', example = []\<rparr>]"
proof -
  let ?ls = "[''connection timeout to db'', ''Connection Timeout again'', ''ready'']"
  let ?ep = "\<lparr>pid = ''aa'', label = ''Timeout'', regex = ''timeout'', level = LWarning,
       discoveredAt = 10, hitCount = 4, description = ''timeouts'', example = []\<rparr>"
  let ?np = "\<lparr>pr_regex = ''connection timeout'', pr_level = LError, pr_label = ''Conn'',
       pr_description = ''d''\<rparr>"
  let ?re = "(True, ''connection timeout'')"
  let ?nm = "[''connection timeout to db'', ''Connection Timeout again'']"
  have c: "compile literal_engine (pr_regex ?np) ''i'' = Some ?re"
    by (simp add: literal_engine_def plain_char_def)
  have ne: "\<forall>e \<in> set [?ep]. regex e \<noteq> pr_regex ?np" by simp
  have nm: "?nm = filter (test literal_engine ?re) ?ls"
    by (simp add: literal_engine_def to_lower_def)
  have nn: "?nm \<noteq> []" by simp
  have ce: "compile literal_engine (regex ?ep) ''i'' = Some (True, ''timeout'')"
    by (simp add: literal_engine_def plain_char_def)
  have "overlapping literal_engine ?nm ?ep"
    by (rule subset_overlapping[OF ce nn]) (simp add: literal_engine_def to_lower_def)
  then have ov: "\<exists>ep \<in> set [?ep]. overlapping literal_engine ?nm ep" by simp
  from overlapping_candidate_bumps_first[OF c ne nm nn ov, of None "''bb''" 20 defaultStore "''s''"]
  obtain i where "i < length [?ep]"
    "merge_candidate literal_engine None (Some ?ls) [?ep] (?np, ''bb'', 20)
       = [?ep][i := ([?ep] ! i)\<lparr>hitCount := hitCount ([?ep] ! i) + 1\<rparr>]" by blast
  then show ?thesis by simp
qed

section \<open>Validation of returned pattern regexes: what is kept\<close>

lemma enough_matches_count:
  "k < MIN_PATTERN_MATCHES \<Longrightarrow>
   enough_matches E re lines k
     = (MIN_PATTERN_MATCHES \<le> k + length (filter (\<lambda>l. safeRegexTest E re l 5000) lines))"
  by (induction lines arbitrary: k) (auto simp: MIN_PATTERN_MATCHES_def)

lemma map_get_map_set: "map_get (map_set m k v) k = Some v"
proof (cases "map_has m k")
  case True
  then show ?thesis
    by (induction m) (auto simp: map_set_def map_get_def map_has_def)
next
  case False
  then have "map_of m k = None" by (simp add: map_has_def map_of_eq_None_iff)
  with False show ?thesis by (simp add: map_set_def map_get_def map_add_def)
qed

lemma validatePatternRegexes_filter:
  "validatePatternRegexes E (Some ps) lines = filter (keeps E lines) ps"
proof -
  have "(\<lambda>p. case safeRegex E (pr_regex p) ''i'' of None \<Rightarrow> False
              | Some re \<Rightarrow> enough_matches E re lines 0) = keeps E lines"
    by (auto simp: keeps_def fun_eq_iff enough_matches_count MIN_PATTERN_MATCHES_def
        split: option.splits)
  then show ?thesis by (simp add: validatePatternRegexes_def)
qed

text \<open>
  Claim C10. Of the pattern regexes the backend returned, the analysis keeps exactly
  those that pass \<open>safeRegex\<close> and match at least three of the lines of the logs under
  \<open>safeRegexTest\<close>, in their order; the others are dropped and nothing else of the
  response changes. The analysis so filtered is what the cache holds under the key,
  together with the lines.
\<close>

theorem returned_regexes_validated:
  "patternRegexes (fst (finish_analysis E cache cid now key response logs))
     = map_option (filter (keeps E (split_lines logs))) (patternRegexes response)
   \<and> (fst (finish_analysis E cache cid now key response logs))\<lparr>patternRegexes := None\<rparr>
     = response\<lparr>patternRegexes := None\<rparr>
   \<and> map_get (cmap (snd (finish_analysis E cache cid now key response logs))) (scopedKey cid key)
     = Some \<lparr>timestamp = now,
             data = \<lparr>cd_analysis = fst (finish_analysis E cache cid now key response logs),
                     cd_logLines = split_lines logs\<rparr>\<rparr>"
proof (cases "patternRegexes response")
  case None
  then show ?thesis
    by (simp add: finish_analysis_def Let_def cache_set_def map_get_map_set)
next
  case (Some ps)
  then show ?thesis
    by (cases ps) (simp_all add: finish_analysis_def Let_def cache_set_def map_get_map_set
        validatePatternRegexes_filter)
qed

theorem returned_regexes_validated_witness:
  "patternRegexes (fst (finish_analysis literal_engine (new_cache 200) ''prod'' 5 ''logs/ns/pod''
      \<lparr>summary = ''s'', health = ''warning'', patterns = [], anomalies = [],
        recommendations = [], errorCount = 3, warningCount = 0,
        patternRegexes = Some
          [\<lparr>pr_regex = ''oom'', pr_level = LCritical, pr_label = ''OOM'', pr_description = ''d''\<rparr>,
           \<lparr>pr_regex = ''again'', pr_level = LError, pr_label = ''Again'', pr_description = ''d''\<rparr>,
           \<lparr>pr_regex = ''('', pr_level = LError, pr_label = ''Bad'', pr_description = ''d''\<rparr>]\<rparr>
      (''oom kill'' @ [CHR 0x0A] @ ''OOM kill'' @ [CHR 0x0A] @ ''ready'' @ [CHR 0x0A] @
       ''oom kill again'')))
   = Some [\<lparr>pr_regex = ''oom'', pr_level = LCritical, pr_label = ''OOM'', pr_description = ''d''\<rparr>]"
proof -
  let ?logs = "''oom kill'' @ [CHR 0x0A] @ ''OOM kill'' @ [CHR 0x0A] @ ''ready'' @ [CHR 0x0A] @
       ''oom kill again''"
  let ?lines = "[''oom kill'', ''OOM kill'', ''ready'', ''oom kill again'']"
  let ?p1 = "\<lparr>pr_regex = ''oom'', pr_level = LCritical, pr_label = ''OOM'', pr_description = ''d''\<rparr>"
  let ?p2 = "\<lparr>pr_regex = ''again'', pr_level = LError, pr_label = ''Again'', pr_description = ''d''\<rparr>"
  let ?p3 = "\<lparr>pr_regex = ''('', pr_level = LError, pr_label = ''Bad'', pr_description = ''d''\<rparr>"
  have sl: "split_lines ?logs = ?lines" by simp
  have h: "\<not> list_ex (\<lambda>heuristic. rx_test heuristic ''oom'') REDOS_HEURISTICS"
    "\<not> list_ex (\<lambda>heuristic. rx_test heuristic ''again'') REDOS_HEURISTICS"
    by (simp_all add: REDOS_HEURISTICS_def rx_test_def nested_quantifier_def
        quantified_alternation_def any_star_def not_close_def quantifier_def)
  have s1: "safeRegex literal_engine ''oom'' ''i'' = Some (True, ''oom'')"
    and s2: "safeRegex literal_engine ''again'' ''i'' = Some (True, ''again'')"
    using h by (simp_all add: safeRegex_def MAX_REGEX_LENGTH_def literal_engine_def plain_char_def)
  have s3: "safeRegex literal_engine ''('' ''i'' = None"
    by (simp add: safeRegex_def literal_engine_def plain_char_def)
  have k1: "keeps literal_engine ?lines ?p1"
    by (simp add: keeps_def s1) (simp add: safeRegexTest_def literal_engine_def to_lower_def)
  have k2: "\<not> keeps literal_engine ?lines ?p2"
    by (simp add: keeps_def s2) (simp add: safeRegexTest_def literal_engine_def to_lower_def)
  have k3: "\<not> keeps literal_engine ?lines ?p3"
    by (simp add: keeps_def s3)
  show ?thesis
    using returned_regexes_validated[of literal_engine "new_cache 200" "''prod''" 5 "''logs/ns/pod''"
        "\<lparr>summary = ''s'', health = ''warning'', patterns = [], anomalies = [],
        recommendations = [], errorCount = 3, warningCount = 0,
        patternRegexes = Some [?p1, ?p2, ?p3]\<rparr>" ?logs, THEN conjunct1]
    unfolding sl using k1 k2 k3 by simp
qed

section \<open>Relationship discovery: the owner walk, the child search, the entry point\<close>

lemma search_batches_asked:
  "search_batches api timed_out uid ns maxChildren paths i found asked = (f, a) \<Longrightarrow>
   \<exists>new. a = asked @ new \<and> length new \<le> (length paths - i + 4) div 5
        \<and> (\<forall>b \<in> set new. length b \<le> 5) \<and> length (concat new) \<le> length paths - i"
proof (induction api timed_out uid ns maxChildren paths i found asked arbitrary: f a
    rule: search_batches.induct)
  case (1 api timed_out uid ns maxChildren paths i found asked)
  show ?case
  proof (cases "i < length paths")
    case False
    with "1.prems" have "a = asked" by (subst (asm) search_batches.simps) simp
    then show ?thesis by simp
  next
    case True
    let ?batch = "take batchSize (drop i paths)"
    let ?answers = "map (search_one api uid ns) ?batch"
    let ?results = "if timed_out i then [] else map snd ?answers"
    let ?found = "found @ concat ?results"
    let ?asked = "asked @ [map fst ?answers]"
    have lb: "length (map fst ?answers) \<le> 5" "length (map fst ?answers) \<le> length paths - i"
      by (simp_all add: batchSize_def)
    show ?thesis
    proof (cases "int (length ?found) \<ge> maxChildren")
      case stop: True
      with True "1.prems" have "a = ?asked"
        by (subst (asm) search_batches.simps) (simp add: Let_def)
      moreover have "1 \<le> (length paths - i + 4) div 5" using True by linarith
      ultimately show ?thesis using lb
        by (intro exI[of _ "[map fst ?answers]"]) simp
    next
      case go: False
      with True "1.prems" have r: "search_batches api timed_out uid ns maxChildren paths
          (i + batchSize) ?found ?asked = (f, a)"
        by (subst (asm) search_batches.simps) (simp add: Let_def)
      from "1.IH"[OF True refl refl refl refl refl _ r] go
      obtain new where new: "a = ?asked @ new"
        "length new \<le> (length paths - (i + batchSize) + 4) div 5"
        "\<forall>b \<in> set new. length b \<le> 5"
        "length (concat new) \<le> length paths - (i + batchSize)"
        by auto
      have "(length paths - (i + 5) + 4) div 5 + 1 \<le> (length paths - i + 4) div 5"
        using True by presburger
      then have "Suc (length new) \<le> (length paths - i + 4) div 5"
        using new(2) by (simp add: batchSize_def)
      moreover have "length (map fst ?answers) + length (concat new) \<le> length paths - i"
        using new(4) True by (simp add: batchSize_def)
      ultimately show ?thesis using new(1,3) lb(1)
        by (intro exI[of _ "map fst ?answers # new"]) simp
    qed
  qed
qed

lemma search_group_asked:
  "search_group api uid ns maxChildren gv rs found asked = (f, a) \<Longrightarrow>
   length a \<le> length asked + length rs"
proof (induction rs arbitrary: found asked f a)
  case Nil
  then show ?case by simp
next
  case (Cons r rs)
  then show ?case
    by (fastforce simp: Let_def split: option.splits if_splits)
qed

lemma paths_21: "length CHILD_SEARCH_PATHS = 21"
  by (simp add: CHILD_SEARCH_PATHS_def)

text \<open>
  Claim C2, as the code has it. The list of well-known types has 21 entries, so a child
  search issues at most five batches over them, each of at most five list requests, 21 at
  most in all; the supplemental pass issues at most one discovery request and at most ten
  list requests. This holds for every object, every answer of the API, every timeout and
  every limit on the number of children.
\<close>

theorem child_search_requests_bounded:
  "length (batches (snd (findChildren api timed_out maxChildren object))) \<le> 5
   \<and> (\<forall>b \<in> set (batches (snd (findChildren api timed_out maxChildren object))). length b \<le> 5)
   \<and> length (concat (batches (snd (findChildren api timed_out maxChildren object)))) \<le> 21
   \<and> length (discovery (snd (findChildren api timed_out maxChildren object))) \<le> 1
   \<and> length (supplemental (snd (findChildren api timed_out maxChildren object))) \<le> 10"
proof (cases "truthy (obj_uid object)")
  case False
  then show ?thesis by (simp add: findChildren_def no_requests_def)
next
  case True
  let ?uid = "the (obj_uid object)"
  let ?ns = "obj_namespace object"
  obtain found asked where sb: "search_batches api timed_out ?uid ?ns maxChildren
      CHILD_SEARCH_PATHS 0 [] [] = (found, asked)" by fastforce
  from search_batches_asked[OF sb] have b: "length asked \<le> 5" "\<forall>b \<in> set asked. length b \<le> 5"
    "length (concat asked) \<le> 21"
    by (auto simp: paths_21)
  let ?gv = "or_else (obj_apiVersion object) []"
  let ?rs = "take 10 (filter (\<lambda>r. res_namespaced r \<and> CHR ''/'' \<notin> set (res_name r))
                (discoverGroupResources api ?gv))"
  obtain found' asked' where sg: "search_group api ?uid ?ns maxChildren ?gv ?rs found [] = (found', asked')"
    by fastforce
  from search_group_asked[OF sg] have s: "length asked' \<le> 10" by simp
  show ?thesis
    using True b s by (simp add: findChildren_def Let_def sb sg)
qed

theorem child_search_requests_bounded_witness:
  "length (batches (snd (findChildren (\<lambda>path. None) (\<lambda>i. False) 50
      (blank_object\<lparr>obj_apiVersion := Some ''apps/v1'', obj_uid := Some ''u-deploy''\<rparr>)))) \<le> 5
   \<and> length (supplemental (snd (findChildren (\<lambda>path. None) (\<lambda>i. False) 50
      (blank_object\<lparr>obj_apiVersion := Some ''apps/v1'', obj_uid := Some ''u-deploy''\<rparr>)))) \<le> 10"
  using child_search_requests_bounded[of "\<lambda>path. None" "\<lambda>i. False" 50
      "blank_object\<lparr>obj_apiVersion := Some ''apps/v1'', obj_uid := Some ''u-deploy''\<rparr>"]
  by blast

text \<open>
  Claim C2 as stated allows four batches. For a Deployment with a uid, on a cluster whose
  lists come back without the object's children, the search issues five batches, 21 list
  requests: the twenty-first type, the ACME challenges, is a batch of its own.
\<close>

theorem five_batches_counterexample:
  "length (batches (snd (findChildren (\<lambda>path. None) (\<lambda>i. False) 50
      (blank_object\<lparr>obj_kind := Some ''Deployment'', obj_apiVersion := Some ''apps/v1'',
         obj_name := Some ''web'', obj_namespace := Some ''default'',
         obj_uid := Some ''u-deploy''\<rparr>)))) = 5
   \<and> length (concat (batches (snd (findChildren (\<lambda>path. None) (\<lambda>i. False) 50
      (blank_object\<lparr>obj_kind := Some ''Deployment'', obj_apiVersion := Some ''apps/v1'',
         obj_name := Some ''web'', obj_namespace := Some ''default'',
         obj_uid := Some ''u-deploy''\<rparr>))))) = 21"
  by code_simp

lemma visit_refs_later:
  "idx \<noteq> 0 \<Longrightarrow> visit_refs api depth idx refs current moved = (os, c, m) \<Longrightarrow>
   c = current \<and> m = moved \<and> length os = length refs"
proof (induction refs arbitrary: idx os c m)
  case Nil
  then show ?case by simp
next
  case (Cons ref rest)
  obtain os' c' m' where r: "visit_refs api depth (Suc idx) rest current moved = (os', c', m')"
    by (cases "visit_refs api depth (Suc idx) rest current moved") auto
  from Cons.IH[OF _ r] have "c' = current \<and> m' = moved \<and> length os' = length rest" by simp
  with Cons.prems r show ?case
    by (auto simp: Let_def split: option.splits)
qed

lemma walk_stops_when_direct_owner_unfetched:
  assumes "obj_ownerReferences object = ref # rest"
    and "resolveOwnerRef api ref (obj_namespace object) = None" and "0 < maxDepth"
  shows "length (walkOwnersUp api object maxDepth) = length (ref # rest)"
proof -
  obtain os c m where r: "visit_refs api 0 (Suc 0) rest object False = (os, c, m)"
    by (cases "visit_refs api 0 (Suc 0) rest object False") auto
  from visit_refs_later[OF _ r] have cm: "c = object" "m = False" "length os = length rest"
    by simp_all
  show ?thesis
    unfolding walkOwnersUp_def
    using assms r cm by (subst walk_levels.simps) (simp add: Let_def)
qed

text \<open>
  Claim C3 on the code. A Pod owned by a ReplicaSet that can be fetched, the ReplicaSet
  owned by a Deployment that cannot: the owner at depth 1 is not fetched, and the walk goes
  on to the depth bound, emitting the Deployment again at the depths 2, 3 and 4 (labelled
  depth 3, 4 and 5). The test that ends the walk after a failed fetch asks for depth 0.
\<close>

theorem owner_walk_repeats_unfetched_owner:
  "map rr_relationship
     (walkOwnersUp
        (\<lambda>path. if path = ''/apis/apps/v1/namespaces/default/replicasets/web-7f9c''
               then Some (Object (blank_object\<lparr>obj_kind := Some ''ReplicaSet'',
                 obj_apiVersion := Some ''apps/v1'', obj_name := Some ''web-7f9c'',
                 obj_namespace := Some ''default'', obj_uid := Some ''u-rs'',
                 obj_ownerReferences := [\<lparr>ref_kind = ''Deployment'',
                   ref_apiVersion = Some ''apps/v1'', ref_name = ''web'', ref_uid = ''u-deploy''\<rparr>]\<rparr>))
               else None)
        (blank_object\<lparr>obj_kind := Some ''Pod'', obj_apiVersion := Some ''v1'',
           obj_name := Some ''web-7f9c-x1'', obj_namespace := Some ''default'',
           obj_uid := Some ''u-pod'',
           obj_ownerReferences := [\<lparr>ref_kind = ''ReplicaSet'', ref_apiVersion = Some ''apps/v1'',
             ref_name = ''web-7f9c'', ref_uid = ''u-rs''\<rparr>]\<rparr>) 5)
   = [''direct owner'', ''owner (depth 2)'', ''owner (depth 3)'', ''owner (depth 4)'',
      ''owner (depth 5)'']
   \<and> map rr_name
     (walkOwnersUp
        (\<lambda>path. if path = ''/apis/apps/v1/namespaces/default/replicasets/web-7f9c''
               then Some (Object (blank_object\<lparr>obj_kind := Some ''ReplicaSet'',
                 obj_apiVersion := Some ''apps/v1'', obj_name := Some ''web-7f9c'',
                 obj_namespace := Some ''default'', obj_uid := Some ''u-rs'',
                 obj_ownerReferences := [\<lparr>ref_kind = ''Deployment'',
                   ref_apiVersion = Some ''apps/v1'', ref_name = ''web'', ref_uid = ''u-deploy''\<rparr>]\<rparr>))
               else None)
        (blank_object\<lparr>obj_kind := Some ''Pod'', obj_apiVersion := Some ''v1'',
           obj_name := Some ''web-7f9c-x1'', obj_namespace := Some ''default'',
           obj_uid := Some ''u-pod'',
           obj_ownerReferences := [\<lparr>ref_kind = ''ReplicaSet'', ref_apiVersion = Some ''apps/v1'',
             ref_name = ''web-7f9c'', ref_uid = ''u-rs''\<rparr>]\<rparr>) 5)
   = [Some ''web-7f9c'', Some ''web'', Some ''web'', Some ''web'', Some ''web'']"
  by code_simp

text \<open>
  Claim C4. Whatever the four strategies settle to, \<open>discoverRelationships\<close> fulfils: a
  strategy that rejects contributes the empty list to its category, and each of the other
  categories holds what its strategy fulfilled with. On a cluster, with the owner walk and
  the child search as modelled, the result holds their lists whatever the other two
  strategies do.
\<close>

theorem discovery_never_rejects:
  "(\<exists>r. discoverRelationships walked found selected referenced = Inr r
       \<and> owners r = (case walked of Inl e \<Rightarrow> [] | Inr v \<Rightarrow> v)
       \<and> children r = (case found of Inl e \<Rightarrow> [] | Inr v \<Rightarrow> v)
       \<and> selectorTargets r = (case selected of Inl e \<Rightarrow> [] | Inr v \<Rightarrow> v)
       \<and> specReferences r = (case referenced of Inl e \<Rightarrow> [] | Inr v \<Rightarrow> v))
   \<and> (\<exists>r. discoverRelationships_on api timed_out maxChildren object selected referenced = Inr r
       \<and> owners r = walkOwnersUp api object 5
       \<and> children r = fst (findChildren api timed_out maxChildren object)
       \<and> selectorTargets r = (case selected of Inl e \<Rightarrow> [] | Inr v \<Rightarrow> v)
       \<and> specReferences r = (case referenced of Inl e \<Rightarrow> [] | Inr v \<Rightarrow> v))"
  by (simp add: discoverRelationships_on_def discoverRelationships_def Promise_all4_def
      catch_empty_def split: sum.splits)

theorem discovery_never_rejects_witness:
  "discoverRelationships (Inr [])
     (Inl \<lparr>err_name = ''TypeError'', err_message = ''m'', err_status = None,
           err_statusCode = None, err_code = None\<rparr>)
     (Inr [\<lparr>rr_kind = ''Pod'', rr_apiVersion = ''v1'', rr_name = Some ''web-1'',
            rr_namespace = Some ''default'', rr_relationship = ''selected by label selector'',
            rr_status = Some ''Running'', rr_detail = None\<rparr>]) (Inr [])
   = Inr \<lparr>owners = [], children = [],
          selectorTargets = [\<lparr>rr_kind = ''Pod'', rr_apiVersion = ''v1'', rr_name = Some ''web-1'',
            rr_namespace = Some ''default'', rr_relationship = ''selected by label selector'',
            rr_status = Some ''Running'', rr_detail = None\<rparr>],
          specReferences = []\<rparr>"
proof -
  let ?e = "\<lparr>err_name = ''TypeError'', err_message = ''m'', err_status = None,
           err_statusCode = None, err_code = None\<rparr>"
  let ?t = "[\<lparr>rr_kind = ''Pod'', rr_apiVersion = ''v1'', rr_name = Some ''web-1'',
            rr_namespace = Some ''default'', rr_relationship = ''selected by label selector'',
            rr_status = Some ''Running'', rr_detail = None\<rparr>]"
  from discovery_never_rejects[of "Inr []" "Inl ?e" "Inr ?t" "Inr []", THEN conjunct1]
  obtain r where r: "discoverRelationships (Inr []) (Inl ?e) (Inr ?t) (Inr []) = Inr r"
    "owners r = []" "children r = []" "selectorTargets r = ?t" "specReferences r = []"
    by auto
  then show ?thesis by (cases r) simp
qed

end
